theory Spec2Isabelle
  imports Main "HOL-Library.Word"
begin

section \<open>Errors and Python ranges\<close>

text \<open>
  The exceptions the functions of \<^verbatim>\<open>utils.py\<close> can raise: \<^verbatim>\<open>ValueError\<close>
  (a zero \<^verbatim>\<open>range\<close> step, a negative dimension, operands that do not broadcast),
  \<^verbatim>\<open>IndexError\<close> (an index array entry outside the first axis) and
  \<^verbatim>\<open>AssertionError\<close> (a failed \<^verbatim>\<open>assert\<close>).
\<close>

datatype error = ValueError | IndexError | AssertionError

text \<open>Sequencing of fallible steps: the first error ends the computation.\<close>

definition ebind :: "error + 'a \<Rightarrow> ('a \<Rightarrow> error + 'b) \<Rightarrow> error + 'b" where
  "ebind m f = (case m of Inl e \<Rightarrow> Inl e | Inr v \<Rightarrow> f v)"

text \<open>
  \<^verbatim>\<open>range(0, stop, step)\<close> for a length \<open>stop\<close>: a zero step raises, a negative
  step gives the empty range, a positive step gives \<open>0, step, 2 * step, ...\<close> below \<open>stop\<close>.
\<close>

definition py_range :: "nat \<Rightarrow> int \<Rightarrow> error + nat list" where
  "py_range stop step =
     (if step = 0 then Inl ValueError
      else if step < 0 then Inr []
      else Inr (map (\<lambda>j. j * nat step) [0..<(stop + nat step - 1) div nat step]))"

text \<open>
  A Python slice \<^verbatim>\<open>xs[start:stop]\<close> (step 1) of a sequence: a negative bound counts
  from the end, every bound is clipped to the sequence, \<open>None\<close> is an omitted bound.
\<close>

definition norm_bound :: "nat \<Rightarrow> int \<Rightarrow> nat" where
  "norm_bound n i = (if i < 0 then nat (int n + i) else min n (nat i))"

definition py_slice :: "int option \<Rightarrow> int option \<Rightarrow> 'a list \<Rightarrow> 'a list" where
  "py_slice start stop xs =
     (let n = length xs;
          s = (case start of None \<Rightarrow> 0 | Some i \<Rightarrow> norm_bound n i);
          e = (case stop of None \<Rightarrow> n | Some i \<Rightarrow> norm_bound n i)
      in take (e - s) (drop s xs))"

section \<open>Four-dimensional arrays\<close>

text \<open>
  An \<^verbatim>\<open>np.ndarray\<close> of rank 4, as the image arrays of shape \<open>(N, h, w, c)\<close> are:
  its shape and its element at an index. Only the indices inside the shape are
  meaningful.
\<close>

record 'a ndarray4 =
  d0 :: nat
  d1 :: nat
  d2 :: nat
  d3 :: nat
  item :: "nat \<Rightarrow> nat \<Rightarrow> nat \<Rightarrow> nat \<Rightarrow> 'a"

text \<open>\<^verbatim>\<open>np.zeros([n, h, w, c])\<close>.\<close>

definition zeros :: "nat \<Rightarrow> nat \<Rightarrow> nat \<Rightarrow> nat \<Rightarrow> 'a::zero ndarray4" where
  "zeros n h w c = \<lparr>d0 = n, d1 = h, d2 = w, d3 = c, item = (\<lambda>e y x k. 0)\<rparr>"

text \<open>
  Broadcasting of a source axis of length \<open>s\<close> to a target axis of length \<open>t\<close>:
  the lengths agree or the source axis has length 1, whose only entry is then read
  at every target index.
\<close>

definition bcast :: "nat \<Rightarrow> nat \<Rightarrow> bool" where
  "bcast s t \<longleftrightarrow> s = t \<or> s = 1"

definition bix :: "nat \<Rightarrow> nat \<Rightarrow> nat" where
  "bix s i = (if s = 1 then 0 else i)"

text \<open>
  \<^verbatim>\<open>a[idxs, ...]\<close> for an array \<open>idxs\<close> of non-negative indices: the rows of \<open>a\<close>
  at these indices, in order; \<^verbatim>\<open>IndexError\<close> when an index is outside the first axis.
\<close>

definition take_rows :: "'a ndarray4 \<Rightarrow> nat list \<Rightarrow> error + 'a ndarray4" where
  "take_rows a idxs =
     (if list_all (\<lambda>i. i < d0 a) idxs
      then Inr (a\<lparr>d0 := length idxs, item := (\<lambda>e. item a (idxs ! e))\<rparr>)
      else Inl IndexError)"

text \<open>
  \<^verbatim>\<open>tgt[..., a:b] = src\<close>: the channels \<open>[a, b)\<close> (clipped to the last axis) of every
  row of \<open>tgt\<close> are overwritten with \<open>src\<close>, broadcast to the shape of the slice and
  converted to the element type of \<open>tgt\<close> by \<open>conv\<close>; \<^verbatim>\<open>ValueError\<close> when \<open>src\<close> does
  not broadcast.
\<close>

definition set_channels ::
  "('a \<Rightarrow> 'b) \<Rightarrow> nat \<Rightarrow> nat \<Rightarrow> 'a ndarray4 \<Rightarrow> 'b ndarray4 \<Rightarrow> error + 'b ndarray4" where
  "set_channels conv a b src tgt =
     (let lo = min (d3 tgt) a; hi = max lo (min (d3 tgt) b)
      in if bcast (d0 src) (d0 tgt) \<and> bcast (d1 src) (d1 tgt) \<and> bcast (d2 src) (d2 tgt)
            \<and> bcast (d3 src) (hi - lo)
         then Inr (tgt\<lparr>item := (\<lambda>e y x k.
                 if lo \<le> k \<and> k < hi
                 then conv (item src (bix (d0 src) e) (bix (d1 src) y) (bix (d2 src) x)
                              (bix (d3 src) (k - lo)))
                 else item tgt e y x k)\<rparr>)
         else Inl ValueError)"

text \<open>
  The position of the last occurrence of \<open>e\<close> in an index array: where an index is
  repeated, the last assignment through it is the one that stays.
\<close>

fun last_pos :: "nat list \<Rightarrow> nat \<Rightarrow> nat option" where
  "last_pos [] e = None"
| "last_pos (r # rs) e =
     (case last_pos rs e of
        Some j \<Rightarrow> Some (Suc j)
      | None \<Rightarrow> if r = e then Some 0 else None)"

text \<open>
  \<^verbatim>\<open>tgt[rows, ..., a:b] = src\<close> for an index array \<open>rows\<close>: row \<open>rows[j]\<close> of \<open>tgt\<close>
  receives row \<open>j\<close> of \<open>src\<close> in the channels \<open>[a, b)\<close>.
\<close>

definition set_rows_channels ::
  "nat list \<Rightarrow> nat \<Rightarrow> nat \<Rightarrow> 'a ndarray4 \<Rightarrow> 'a ndarray4 \<Rightarrow> error + 'a ndarray4" where
  "set_rows_channels rows a b src tgt =
     (let lo = min (d3 tgt) a; hi = max lo (min (d3 tgt) b)
      in if list_all (\<lambda>r. r < d0 tgt) rows
         then if bcast (d0 src) (length rows) \<and> bcast (d1 src) (d1 tgt)
                 \<and> bcast (d2 src) (d2 tgt) \<and> bcast (d3 src) (hi - lo)
              then Inr (tgt\<lparr>item := (\<lambda>e y x k.
                     case last_pos rows e of
                       None \<Rightarrow> item tgt e y x k
                     | Some j \<Rightarrow>
                         if lo \<le> k \<and> k < hi
                         then item src (bix (d0 src) j) (bix (d1 src) y) (bix (d2 src) x)
                                (bix (d3 src) (k - lo))
                         else item tgt e y x k)\<rparr>)
              else Inl ValueError
         else Inl IndexError)"

text \<open>
  \<^verbatim>\<open>(r[i, ..., a:b] == s[j]).all()\<close>: the two frames are compared elementwise after
  broadcasting either one to the other; \<^verbatim>\<open>IndexError\<close> when \<open>i\<close> or \<open>j\<close> is outside
  the first axis, an error when the shapes do not broadcast.
\<close>

definition bdim :: "nat \<Rightarrow> nat \<Rightarrow> nat" where
  "bdim m n = (if m = 1 then n else m)"

definition frames_equal ::
  "'a ndarray4 \<Rightarrow> nat \<Rightarrow> nat \<Rightarrow> nat \<Rightarrow> 'a ndarray4 \<Rightarrow> nat \<Rightarrow> error + bool" where
  "frames_equal r i a b s j =
     (let lo = min (d3 r) a; hi = max lo (min (d3 r) b); n = hi - lo
      in if i < d0 r \<and> j < d0 s
         then if (bcast (d1 r) (d1 s) \<or> bcast (d1 s) (d1 r))
                 \<and> (bcast (d2 r) (d2 s) \<or> bcast (d2 s) (d2 r))
                 \<and> (bcast n (d3 s) \<or> bcast (d3 s) n)
              then Inr (list_all (\<lambda>y. list_all (\<lambda>x. list_all (\<lambda>k.
                     item r i (bix (d1 r) y) (bix (d2 r) x) (lo + bix n k)
                     = item s j (bix (d1 s) y) (bix (d2 s) x) (bix (d3 s) k))
                   [0..<bdim n (d3 s)]) [0..<bdim (d2 r) (d2 s)]) [0..<bdim (d1 r) (d1 s)])
              else Inl ValueError
         else Inl IndexError)"

section \<open>The frame-pair generator \<^verbatim>\<open>image_pairs\<close>\<close>

text \<open>
  \<^verbatim>\<open>stacked_indices\<close>: an array of \<open>(sequence_length - 1) * 2\<close> unsigned 8-bit
  integers. The two strided assignments \<^verbatim>\<open>[0::2] = batch_indices\<close> and
  \<^verbatim>\<open>[1::2] = batch_indices + 1\<close> write every position, converting the 64-bit
  indices to \<^verbatim>\<open>uint8\<close>: position \<open>2 * k\<close> holds \<open>batch_indices[k]\<close> and position
  \<open>2 * k + 1\<close> holds \<open>batch_indices[k] + 1\<close>, both modulo 256.
\<close>

definition stacked_indices :: "nat list \<Rightarrow> 8 word list" where
  "stacked_indices batch_indices =
     map (\<lambda>p. if even p then of_nat (batch_indices ! (p div 2))
              else of_nat (batch_indices ! (p div 2) + 1))
       [0..<length batch_indices * 2]"

text \<open>
  One iteration of the loop of \<^verbatim>\<open>image_pairs\<close> at chunk start \<open>idx\<close>, for a positive
  \<open>sequence_length\<close>. \<open>fresh\<close> is the content \<^verbatim>\<open>np.empty\<close> returns for \<open>ret\<close>:
  whatever the memory held. The result is the array yielded, or the exception raised.
\<close>

definition pairs_body ::
  "(nat \<Rightarrow> nat \<Rightarrow> nat \<Rightarrow> nat \<Rightarrow> 'a) \<Rightarrow> 'a ndarray4 \<Rightarrow> nat \<Rightarrow> nat \<Rightarrow> error + 'a ndarray4" where
  "pairs_body fresh image_sequence sequence_length idx =
     (let batch_indices = map (\<lambda>k. k + idx) [0..<sequence_length - 1];
          sidx = stacked_indices batch_indices;
          indices = [0..<sequence_length - 1]
      in ebind (take_rows image_sequence (map unat sidx)) (\<lambda>stacked.
         let ret = \<lparr>d0 = sequence_length, d1 = d1 image_sequence, d2 = d2 image_sequence,
                    d3 = 2 * d3 image_sequence, item = fresh\<rparr>
         in ebind (take_rows stacked (map (\<lambda>i. i * 2) indices)) (\<lambda>evens.
            ebind (set_rows_channels indices 0 3 evens ret) (\<lambda>ret1.
            ebind (take_rows stacked (map (\<lambda>i. i * 2 + 1) indices)) (\<lambda>odds.
            ebind (set_rows_channels indices 3 6 odds ret1) (\<lambda>ret2.
            ebind (frames_equal ret2 0 0 3 image_sequence 0) (\<lambda>ok0.
            if ok0
            then ebind (frames_equal ret2 0 3 (d3 ret2) image_sequence 1) (\<lambda>ok1.
                 if ok1 then Inr ret2 else Inl AssertionError)
            else Inl AssertionError)))))))"

text \<open>
  The loop over the chunk starts: the arrays yielded so far, in order, and the
  exception that ended the generator, if one did. \<open>mem idx\<close> is the content of the
  memory \<^verbatim>\<open>np.empty\<close> hands out in the iteration at \<open>idx\<close>.
\<close>

fun pairs_loop ::
  "(nat \<Rightarrow> nat \<Rightarrow> nat \<Rightarrow> nat \<Rightarrow> nat \<Rightarrow> 'a) \<Rightarrow> 'a ndarray4 \<Rightarrow> nat \<Rightarrow> nat list
     \<Rightarrow> 'a ndarray4 list \<times> error option" where
  "pairs_loop mem image_sequence sequence_length [] = ([], None)"
| "pairs_loop mem image_sequence sequence_length (idx # rest) =
     (case pairs_body (mem idx) image_sequence sequence_length idx of
        Inl e \<Rightarrow> ([], Some e)
      | Inr ret \<Rightarrow>
          (case pairs_loop mem image_sequence sequence_length rest of
             (ys, r) \<Rightarrow> (ret # ys, r)))"

definition image_pairs ::
  "(nat \<Rightarrow> nat \<Rightarrow> nat \<Rightarrow> nat \<Rightarrow> nat \<Rightarrow> 'a) \<Rightarrow> 'a ndarray4 \<Rightarrow> int
     \<Rightarrow> 'a ndarray4 list \<times> error option" where
  "image_pairs mem image_sequence sequence_length =
     (case py_range (d0 image_sequence) sequence_length of
        Inl e \<Rightarrow> ([], Some e)
      | Inr idxs \<Rightarrow> pairs_loop mem image_sequence (nat sequence_length) idxs)"

section \<open>The batch manager \<^verbatim>\<open>DataManager\<close>\<close>

text \<open>
  The array objects live in a store, each at an address: the objects of rank 4 (the
  loaded image array and the output buffer) and the objects of rank 2 (the loaded pose
  array and the pose-difference arrays), a pose array being the list of its rows. An
  array expression allocates a new object; an assignment through an index writes into
  the object at its address. Two names for one address are two names for one array.
\<close>

type_synonym addr = nat

record ('v, 'p) store =
  arrays4 :: "'v ndarray4 list"
  arrays2 :: "'p list list list"

definition alloc4 :: "'v ndarray4 \<Rightarrow> ('v, 'p) store \<Rightarrow> addr \<times> ('v, 'p) store" where
  "alloc4 a s = (length (arrays4 s), s\<lparr>arrays4 := arrays4 s @ [a]\<rparr>)"

definition alloc2 :: "'p list list \<Rightarrow> ('v, 'p) store \<Rightarrow> addr \<times> ('v, 'p) store" where
  "alloc2 a s = (length (arrays2 s), s\<lparr>arrays2 := arrays2 s @ [a]\<rparr>)"

text \<open>The attributes of a \<^verbatim>\<open>DataManager\<close>; the three arrays are held by reference.\<close>

record DataManager =
  poses :: addr
  images :: addr
  seq_len :: int
  batch_size :: int
  add_frames :: int
  N :: nat
  H :: nat
  W :: nat
  C :: nat
  image_indices :: "nat list"
  image_stack_batch :: addr

text \<open>
  \<^verbatim>\<open>DataManager.__init__\<close>. \<open>loaded_poses\<close> and \<open>loaded_images\<close> are the arrays
  \<^verbatim>\<open>np.load\<close> returns for the two paths. \<^verbatim>\<open>np.arange\<close> of a negative number is
  empty; \<^verbatim>\<open>np.zeros\<close> raises \<^verbatim>\<open>ValueError\<close> on a negative dimension.
\<close>

definition DataManager_init ::
  "'p list list \<Rightarrow> 'v::zero ndarray4 \<Rightarrow> int \<Rightarrow> int \<Rightarrow> ('v, 'p) store
     \<Rightarrow> error + (DataManager \<times> ('v, 'p) store)" where
  "DataManager_init loaded_poses loaded_images bs sl s0 =
     (case alloc2 loaded_poses s0 of (poses_ref, s1) \<Rightarrow>
      case alloc4 loaded_images s1 of (images_ref, s2) \<Rightarrow>
      let af = sl - 1;
          n = d0 loaded_images; h = d1 loaded_images;
          w = d2 loaded_images; c = d3 loaded_images;
          indices = [0..<nat (bs + af)]
      in if bs < 0 \<or> int c * sl < 0 then Inl ValueError
         else case alloc4 (zeros (nat bs) h w (nat (int c * sl))) s2 of (buf_ref, s3) \<Rightarrow>
           Inr (\<lparr>poses = poses_ref, images = images_ref, seq_len = sl, batch_size = bs,
                 add_frames = af, N = n, H = h, W = w, C = c, image_indices = indices,
                 image_stack_batch = buf_ref\<rparr>, s3))"

text \<open>\<^verbatim>\<open>poses[idxs]\<close>: the rows of a pose array at an array of non-negative indices.\<close>

definition take_poses :: "'p list list \<Rightarrow> nat list \<Rightarrow> error + 'p list list" where
  "take_poses ps idxs =
     (if list_all (\<lambda>i. i < length ps) idxs then Inr (map (\<lambda>i. ps ! i) idxs)
      else Inl IndexError)"

text \<open>
  The difference of two pose arrays with the same row length: rowwise when they have
  as many rows; when one of them has a single row, that row is broadcast to the rows
  of the other (also to no row at all); otherwise \<^verbatim>\<open>ValueError\<close>. The subtraction
  of two pose entries is the one of the element type.
\<close>

definition sub_rows :: "'p::minus list \<Rightarrow> 'p list \<Rightarrow> 'p list" where
  "sub_rows x y = map2 (\<lambda>a b. a - b) x y"

definition sub_poses :: "'p::minus list list \<Rightarrow> 'p list list \<Rightarrow> error + 'p list list" where
  "sub_poses xs ys =
     (if length xs = length ys then Inr (map2 sub_rows xs ys)
      else if length xs = 1 then Inr (map (\<lambda>y. sub_rows (hd xs) y) ys)
      else if length ys = 1 then Inr (map (\<lambda>x. sub_rows x (hd ys)) xs)
      else Inl ValueError)"

text \<open>
  One pass of the inner loop of \<^verbatim>\<open>batches\<close>, at \<open>idx\<close>: the frames selected from
  the global indices \<open>g\<close> are written into the channel block \<open>[C * idx, C * (idx + 1))\<close>
  of the buffer, in place. \<open>conv\<close> is the conversion of an image element to the
  element type of the buffer, which the assignment performs.
\<close>

definition fill_step ::
  "('v \<Rightarrow> 'v) \<Rightarrow> DataManager \<Rightarrow> nat list \<Rightarrow> nat \<Rightarrow> ('v, 'p) store \<Rightarrow> error + ('v, 'p) store" where
  "fill_step conv dm g idx s =
     (let begin = C dm * idx;
          endc = C dm * (idx + 1);
          sel = (if int idx = seq_len dm - 1 then py_slice (Some (int idx)) None g
                 else py_slice (Some (int idx)) (Some (- (add_frames dm - int idx))) g)
      in ebind (take_rows (arrays4 s ! images dm) sel) (\<lambda>src.
         ebind (set_channels conv begin endc src (arrays4 s ! image_stack_batch dm)) (\<lambda>buf.
         Inr (s\<lparr>arrays4 := (arrays4 s)[image_stack_batch dm := buf]\<rparr>))))"

fun fill_loop ::
  "('v \<Rightarrow> 'v) \<Rightarrow> DataManager \<Rightarrow> nat list \<Rightarrow> nat list \<Rightarrow> ('v, 'p) store
     \<Rightarrow> ('v, 'p) store \<times> error option" where
  "fill_loop conv dm g [] s = (s, None)"
| "fill_loop conv dm g (idx # rest) s =
     (case fill_step conv dm g idx s of
        Inl e \<Rightarrow> (s, Some e)
      | Inr s' \<Rightarrow> fill_loop conv dm g rest s')"

text \<open>
  The pose differences of one batch,
  \<^verbatim>\<open>poses[g[add_frames:]] - poses[g[:-add_frames]]\<close> for the global indices \<open>g\<close>.
\<close>

definition pose_differences ::
  "DataManager \<Rightarrow> 'p::minus list list \<Rightarrow> nat list \<Rightarrow> error + 'p list list" where
  "pose_differences dm ps g =
     ebind (take_poses ps (py_slice (Some (add_frames dm)) None g)) (\<lambda>later.
     ebind (take_poses ps (py_slice None (Some (- add_frames dm)) g)) (\<lambda>first.
     sub_poses later first))"

text \<open>
  The body of the outer loop of \<^verbatim>\<open>batches\<close> after the \<^verbatim>\<open>break\<close> test, at
  \<open>batch_idx\<close>: the store it leaves and either the exception raised or the pair yielded,
  the buffer and the new pose-difference array, both as references.
\<close>

definition batch_body ::
  "('v \<Rightarrow> 'v) \<Rightarrow> DataManager \<Rightarrow> nat \<Rightarrow> ('v, 'p::minus) store
     \<Rightarrow> ('v, 'p) store \<times> (error + addr \<times> addr)" where
  "batch_body conv dm batch_idx s =
     (let image_indices_global = map (\<lambda>i. i + batch_idx) (image_indices dm)
      in case pose_differences dm (arrays2 s ! poses dm) image_indices_global of
           Inl e \<Rightarrow> (s, Inl e)
         | Inr diff_poses \<Rightarrow>
             (case alloc2 diff_poses s of (diff_ref, s1) \<Rightarrow>
                (case fill_loop conv dm image_indices_global [0..<nat (seq_len dm)] s1 of
                   (s2, Some e) \<Rightarrow> (s2, Inl e)
                 | (s2, None) \<Rightarrow> (s2, Inr (image_stack_batch dm, diff_ref)))))"

text \<open>
  The outer loop over the batch starts. Every pair yielded is recorded with the store
  as it is when the caller receives the pair; the result also holds the store at the
  end and the exception that ended the generator, if one did.
\<close>

fun batches_loop ::
  "('v \<Rightarrow> 'v) \<Rightarrow> DataManager \<Rightarrow> nat list \<Rightarrow> ('v, 'p::minus) store
     \<Rightarrow> ((addr \<times> addr) \<times> ('v, 'p) store) list \<times> ('v, 'p) store \<times> error option" where
  "batches_loop conv dm [] s = ([], s, None)"
| "batches_loop conv dm (batch_idx # rest) s =
     (if batch_idx + length (image_indices dm) > N dm then ([], s, None)
      else case batch_body conv dm batch_idx s of
             (s', Inl e) \<Rightarrow> ([], s', Some e)
           | (s', Inr y) \<Rightarrow>
               (case batches_loop conv dm rest s' of
                  (ys, sf, r) \<Rightarrow> ((y, s') # ys, sf, r)))"

definition batches ::
  "('v \<Rightarrow> 'v) \<Rightarrow> DataManager \<Rightarrow> ('v, 'p::minus) store
     \<Rightarrow> ((addr \<times> addr) \<times> ('v, 'p) store) list \<times> ('v, 'p) store \<times> error option" where
  "batches conv dm s =
     (case py_range (N dm) (int (length (image_indices dm))) of
        Inl e \<Rightarrow> ([], s, Some e)
      | Inr idxs \<Rightarrow> batches_loop conv dm idxs s)"

section \<open>The conversion of 64-bit integers to \<^verbatim>\<open>float64\<close>\<close>

text \<open>
  The buffer of a \<^verbatim>\<open>DataManager\<close> is an array of 64-bit floats, and an assignment
  into it converts the image elements. For images of 64-bit integers the conversion
  rounds to 53 significant bits, to the nearest value and to the even one of two
  nearest: \<open>excess_bits a\<close> is the number of low bits of the magnitude \<open>a\<close> that do
  not fit, and the result, an integer again, is given as one.
\<close>

fun excess_bits :: "nat \<Rightarrow> nat" where
  "excess_bits a = (if a < 2 ^ 53 then 0 else Suc (excess_bits (a div 2)))"

declare excess_bits.simps [simp del]

definition float64_of_int :: "int \<Rightarrow> int" where
  "float64_of_int v =
     (let a = nat \<bar>v\<bar>;
          s = excess_bits a;
          q = a div 2 ^ s;
          r = a mod 2 ^ s;
          up = (2 ^ s < 2 * r \<or> (2 * r = 2 ^ s \<and> odd q))
      in sgn v * int ((if up then q + 1 else q) * 2 ^ s))"

section \<open>The dtype converter \<^verbatim>\<open>convert_large_array\<close>\<close>

text \<open>
  The numeric dtypes of NumPy by kind and item size in bits, and an array of any
  rank with its shape, its dtype and its elements in storage order.
\<close>

datatype kind = Bool_kind | Int_kind | UInt_kind | Float_kind | Complex_kind

datatype np_dtype = DType kind nat


record 'a ndarray =
  shape :: "nat list"
  dtype :: np_dtype
  elements :: "'a list"




section \<open>Example data\<close>

text \<open>
  Small inputs on which the functions are run: \<open>n\<close> frames of one pixel and three
  channels, channel \<open>k\<close> of frame \<open>e\<close> holding \<open>10 * e + k\<close> (all frames
  different) or the constant 7 (all frames equal).
\<close>

definition example_frames :: "nat \<Rightarrow> int ndarray4" where
  "example_frames n =
     \<lparr>d0 = n, d1 = 1, d2 = 1, d3 = 3, item = (\<lambda>e y x k. 10 * int e + int k)\<rparr>"

definition constant_frames :: "nat \<Rightarrow> int ndarray4" where
  "constant_frames n = \<lparr>d0 = n, d1 = 1, d2 = 1, d3 = 3, item = (\<lambda>e y x k. 7)\<rparr>"


text \<open>
  \<open>n\<close> poses of two entries, pose \<open>i\<close> being \<open>(100 * i, i)\<close>, and the store
  before anything is loaded.
\<close>

definition example_poses :: "nat \<Rightarrow> int list list" where
  "example_poses n = map (\<lambda>i. [100 * int i, int i]) [0..<n]"

definition empty_store :: "(int, int) store" where
  "empty_store = \<lparr>arrays4 = [], arrays2 = []\<rparr>"

text \<open>
  The scenario of six frames and six poses with \<open>batch_size = 2\<close> and
  \<open>seq_len = 2\<close>: the construction and the whole pass of \<^verbatim>\<open>batches\<close>, without
  conversion of the image elements.
\<close>

definition example_init :: "error + DataManager \<times> (int, int) store" where
  "example_init = DataManager_init (example_poses 6) (example_frames 6) 2 2 empty_store"

definition example_run ::
  "((addr \<times> addr) \<times> (int, int) store) list \<times> (int, int) store \<times> error option" where
  "example_run = batches (\<lambda>v. v) (fst (projr example_init)) (snd (projr example_init))"

text \<open>A pass with \<open>seq_len = 1\<close> over \<open>n\<close> frames and \<open>n\<close> poses.\<close>

definition single_init :: "nat \<Rightarrow> int \<Rightarrow> error + DataManager \<times> (int, int) store" where
  "single_init n bs = DataManager_init (example_poses n) (example_frames n) bs 1 empty_store"

definition single_run ::
  "nat \<Rightarrow> int \<Rightarrow> ((addr \<times> addr) \<times> (int, int) store) list \<times> (int, int) store \<times> error option" where
  "single_run n bs =
     batches (\<lambda>v. v) (fst (projr (single_init n bs))) (snd (projr (single_init n bs)))"

text \<open>
  The same pass with the conversion of 64-bit integers to \<^verbatim>\<open>float64\<close>, and a
  pass over two one-channel frames that hold \<open>2 ^ 53 + 1\<close> everywhere, with
  \<open>batch_size = 1\<close> and \<open>seq_len = 2\<close>.
\<close>

definition float_run ::
  "((addr \<times> addr) \<times> (int, int) store) list \<times> (int, int) store \<times> error option" where
  "float_run = batches float64_of_int (fst (projr example_init)) (snd (projr example_init))"

definition big_frames :: "int ndarray4" where
  "big_frames = \<lparr>d0 = 2, d1 = 1, d2 = 1, d3 = 1, item = (\<lambda>e y x k. 9007199254740993)\<rparr>"

definition big_init :: "error + DataManager \<times> (int, int) store" where
  "big_init = DataManager_init (example_poses 2) big_frames 1 2 empty_store"

definition big_run ::
  "((addr \<times> addr) \<times> (int, int) store) list \<times> (int, int) store \<times> error option" where
  "big_run = batches float64_of_int (fst (projr big_init)) (snd (projr big_init))"






section \<open>The invariant of a constructed \<^verbatim>\<open>DataManager\<close>\<close>

text \<open>
  What holds of a \<^verbatim>\<open>DataManager\<close> \<open>dm\<close> in a store \<open>s\<close> from its construction
  on, for the loaded poses \<open>ps\<close> and images \<open>imgs\<close>: its references are allocated,
  the buffer is not the image array, the two loaded arrays are in place, the
  attributes are the ones computed from the arguments, and the buffer has the shape
  \<open>(batch_size, H, W, C * seq_len)\<close>.
\<close>

definition dm_ok :: "DataManager \<Rightarrow> ('v, 'p) store \<Rightarrow> 'p list list \<Rightarrow> 'v ndarray4 \<Rightarrow> bool" where
  "dm_ok dm s ps imgs \<longleftrightarrow>
     poses dm < length (arrays2 s) \<and> arrays2 s ! poses dm = ps
   \<and> images dm < length (arrays4 s) \<and> arrays4 s ! images dm = imgs
   \<and> image_stack_batch dm < length (arrays4 s) \<and> image_stack_batch dm \<noteq> images dm
   \<and> 0 \<le> batch_size dm \<and> add_frames dm = seq_len dm - 1
   \<and> N dm = d0 imgs \<and> H dm = d1 imgs \<and> W dm = d2 imgs \<and> C dm = d3 imgs
   \<and> image_indices dm = [0..<nat (batch_size dm + add_frames dm)]
   \<and> d0 (arrays4 s ! image_stack_batch dm) = nat (batch_size dm)
   \<and> d1 (arrays4 s ! image_stack_batch dm) = d1 imgs
   \<and> d2 (arrays4 s ! image_stack_batch dm) = d2 imgs
   \<and> d3 (arrays4 s ! image_stack_batch dm) = nat (int (d3 imgs) * seq_len dm)"

text \<open>
  What a pair yielded at batch start \<open>b\<close> provides, in the store \<open>snd yst\<close> the
  caller sees it in: the first reference is the buffer of \<open>dm\<close>, the second one
  holds the pose differences of the batch, and channel block \<open>t\<close> of example \<open>e\<close>
  of the buffer holds the converted frame \<open>b + t + e\<close>.
\<close>

definition batch_at ::
  "('v \<Rightarrow> 'v) \<Rightarrow> DataManager \<Rightarrow> 'p::minus list list \<Rightarrow> 'v ndarray4 \<Rightarrow> nat
     \<Rightarrow> (addr \<times> addr) \<times> ('v, 'p) store \<Rightarrow> bool" where
  "batch_at conv dm ps imgs b yst \<longleftrightarrow>
     fst (fst yst) = image_stack_batch dm
   \<and> dm_ok dm (snd yst) ps imgs
   \<and> b + length (image_indices dm) \<le> N dm
   \<and> snd (fst yst) < length (arrays2 (snd yst))
   \<and> pose_differences dm ps (map (\<lambda>i. i + b) (image_indices dm))
       = Inr (arrays2 (snd yst) ! snd (fst yst))
   \<and> (\<forall>e y x t ch. e < nat (batch_size dm) \<longrightarrow> y < d1 imgs \<longrightarrow> x < d2 imgs
         \<longrightarrow> t < nat (seq_len dm) \<longrightarrow> ch < d3 imgs \<longrightarrow>
         item (arrays4 (snd yst) ! image_stack_batch dm) e y x (d3 imgs * t + ch)
           = conv (item imgs (b + t + e) y x ch))"

section \<open>Basic facts\<close>

lemma ebind_simps [simp]: "ebind (Inl e) f = Inl e" "ebind (Inr v) f = f v"
  by (simp_all add: ebind_def)

lemma ebind_eq_Inr: "ebind m f = Inr r \<longleftrightarrow> (\<exists>v. m = Inr v \<and> f v = Inr r)"
  by (cases m) simp_all

lemma bix_less [simp]: "i < s \<Longrightarrow> bix s i = i"
  by (auto simp: bix_def)

lemma last_pos_snoc:
  "last_pos (rs @ [r]) e = (if r = e then Some (length rs) else last_pos rs e)"
  by (induction rs) (auto split: option.splits)

lemma last_pos_upt: "last_pos [0..<m] e = (if e < m then Some e else None)"
  by (induction m) (auto simp: last_pos_snoc)

section \<open>Properties of \<^verbatim>\<open>image_pairs\<close>\<close>

lemma stacked_indices_length [simp]: "length (stacked_indices bi) = length bi * 2"
  by (simp add: stacked_indices_def)





lemma set_rows_channels_shape:
  assumes "set_rows_channels rows lo hi src tgt = Inr r"
  shows "d0 r = d0 tgt \<and> d1 r = d1 tgt \<and> d2 r = d2 tgt \<and> d3 r = d3 tgt"
  using assms by (auto simp: set_rows_channels_def Let_def split: if_splits)

lemma pairs_body_steps:
  assumes "pairs_body fresh a sl idx = Inr ret"
  shows "\<exists>stacked evens odds ret1.
      take_rows a (map unat (stacked_indices (map (\<lambda>k. k + idx) [0..<sl - 1]))) = Inr stacked
    \<and> take_rows stacked (map (\<lambda>i. i * 2) [0..<sl - 1]) = Inr evens
    \<and> set_rows_channels [0..<sl - 1] 0 3 evens
         \<lparr>d0 = sl, d1 = d1 a, d2 = d2 a, d3 = 2 * d3 a, item = fresh\<rparr> = Inr ret1
    \<and> take_rows stacked (map (\<lambda>i. i * 2 + 1) [0..<sl - 1]) = Inr odds
    \<and> set_rows_channels [0..<sl - 1] 3 6 odds ret1 = Inr ret"
  using assms
  by (auto simp: pairs_body_def Let_def ebind_eq_Inr split: if_splits)

lemma pairs_body_shape:
  assumes "pairs_body fresh a sl idx = Inr ret"
  shows "d0 ret = sl \<and> d1 ret = d1 a \<and> d2 ret = d2 a \<and> d3 ret = 2 * d3 a"
proof -
  from pairs_body_steps [OF assms] obtain stacked evens odds ret1 where
    r1: "set_rows_channels [0..<sl - 1] 0 3 evens
           \<lparr>d0 = sl, d1 = d1 a, d2 = d2 a, d3 = 2 * d3 a, item = fresh\<rparr> = Inr ret1"
    and r2: "set_rows_channels [0..<sl - 1] 3 6 odds ret1 = Inr ret"
    by blast
  from set_rows_channels_shape [OF r1] set_rows_channels_shape [OF r2]
  show ?thesis by simp
qed



lemma pairs_body_last_slot:
  assumes "pairs_body fresh a sl idx = Inr ret"
  shows "item ret (sl - 1) y x k = fresh (sl - 1) y x k"
proof -
  from pairs_body_steps [OF assms] obtain evens odds ret1 where
    r1: "set_rows_channels [0..<sl - 1] 0 3 evens
           \<lparr>d0 = sl, d1 = d1 a, d2 = d2 a, d3 = 2 * d3 a, item = fresh\<rparr> = Inr ret1"
    and r2: "set_rows_channels [0..<sl - 1] 3 6 odds ret1 = Inr ret"
    by blast
  have "item ret1 (sl - 1) y x k = fresh (sl - 1) y x k"
    using r1 by (auto simp: set_rows_channels_def Let_def last_pos_upt split: if_splits)
  moreover have "item ret (sl - 1) y x k = item ret1 (sl - 1) y x k"
    using r2 by (auto simp: set_rows_channels_def Let_def last_pos_upt split: if_splits)
  ultimately show ?thesis by simp
qed

lemma pairs_loop_yield:
  "pairs_loop mem a sl idxs = (ys, r) \<Longrightarrow> j < length ys \<Longrightarrow>
     j < length idxs \<and> pairs_body (mem (idxs ! j)) a sl (idxs ! j) = Inr (ys ! j)"
proof (induction idxs arbitrary: ys r j)
  case Nil
  then show ?case by simp
next
  case (Cons idx rest)
  show ?case
  proof (cases "pairs_body (mem idx) a sl idx")
    case (Inl e)
    with Cons.prems show ?thesis by simp
  next
    case (Inr ret)
    obtain ys' r' where rest: "pairs_loop mem a sl rest = (ys', r')"
      by (cases "pairs_loop mem a sl rest")
    with Cons.prems Inr have ys: "ys = ret # ys'" by simp
    show ?thesis
    proof (cases j)
      case 0
      with ys Inr show ?thesis by simp
    next
      case (Suc j')
      with Cons.prems ys have "j' < length ys'" by simp
      from Cons.IH [OF rest this] Suc ys show ?thesis by simp
    qed
  qed
qed

lemma image_pairs_yield:
  assumes "image_pairs mem a sl = (ys, r)" and "j < length ys"
  shows "0 < sl \<and> pairs_body (mem (j * nat sl)) a (nat sl) (j * nat sl) = Inr (ys ! j)"
proof -
  have pos: "0 < sl"
    using assms by (auto simp: image_pairs_def py_range_def split: if_splits)
  let ?idxs = "map (\<lambda>j. j * nat sl) [0..<(d0 a + nat sl - 1) div nat sl]"
  have "pairs_loop mem a (nat sl) ?idxs = (ys, r)"
    using assms(1) pos by (simp add: image_pairs_def py_range_def)
  from pairs_loop_yield [OF this assms(2)] pos show ?thesis by auto
qed




lemma bdim_same [simp]: "bdim m m = m"
  by (simp add: bdim_def)



text \<open>The definitions to unfold when \<^verbatim>\<open>image_pairs\<close> is run on a concrete input.\<close>

lemmas eval_pairs = image_pairs_def py_range_def pairs_body_def stacked_indices_def take_rows_def
  set_rows_channels_def frames_equal_def bcast_def bix_def bdim_def Let_def



text \<open>
  The last slot of every chunk yielded is never written: it holds what \<^verbatim>\<open>np.empty\<close>
  returned.
\<close>

lemma image_pairs_last_slot:
  assumes "image_pairs mem a sl = (ys, r)" and "j < length ys"
  shows "item (ys ! j) (nat sl - 1) y x k = mem (j * nat sl) (nat sl - 1) y x k"
  using image_pairs_yield [OF assms] pairs_body_last_slot by blast

text \<open>
  C4. The claim that every slot \<open>k\<close> in \<open>[0, sequence_length)\<close> of a chunk merges
  the frames \<open>idx + k\<close> and \<open>idx + k + 1\<close> fails at the last slot. On four
  different frames and \<open>sequence_length = 2\<close>, with memory that held 99 everywhere,
  slot 1 of the first chunk still holds 99 in channel 0, where frame 1 holds 10.
\<close>

theorem image_pairs_last_slot_unwritten:
  "item (fst (image_pairs (\<lambda>i e y x k. 99) (example_frames 4) 2) ! 0) 1 0 0 0 = 99
   \<and> item (example_frames 4) 1 0 0 0 = 10"
  by (simp add: eval_pairs example_frames_def upt_rec)

text \<open>
  C5. On five equal frames and \<open>sequence_length = 2\<close> the generator yields the two
  complete chunks and then, at the incomplete chunk starting at 4, raises
  \<^verbatim>\<open>IndexError\<close> (index 5 is read) instead of ending silently.
\<close>

theorem image_pairs_partial_chunk_raises:
  "length (fst (image_pairs mem (constant_frames 5) 2)) = 2
   \<and> snd (image_pairs mem (constant_frames 5) 2) = Some IndexError"
  by (simp add: eval_pairs constant_frames_def upt_rec)

text \<open>
  The two \<^verbatim>\<open>assert\<close> statements compare slot 0 of every chunk with the frames 0 and
  1 of the input, not with the frames at the chunk start: on four different frames the
  second chunk fails the assertion and one chunk is yielded, not two.
\<close>

lemma image_pairs_second_chunk_assertion:
  "length (fst (image_pairs mem (example_frames 4) 2)) = 1
   \<and> snd (image_pairs mem (example_frames 4) 2) = Some AssertionError"
  by (simp add: eval_pairs example_frames_def upt_rec)

section \<open>Properties of the \<^verbatim>\<open>DataManager\<close>\<close>

subsection \<open>Construction and index selection\<close>

lemma init_facts:
  assumes "DataManager_init ps imgs bs sl s0 = Inr (dm, s1)"
  shows "dm_ok dm s1 ps imgs" and "seq_len dm = sl" and "batch_size dm = bs" and "0 \<le> bs"
    and "C dm = d3 imgs" and "N dm = d0 imgs" and "H dm = d1 imgs" and "W dm = d2 imgs"
    and "length (image_indices dm) = nat (bs + sl - 1)"
    and "image_stack_batch dm = Suc (length (arrays4 s0))"
    and "images dm = length (arrays4 s0)" and "poses dm = length (arrays2 s0)"
    and "length (arrays4 s1) = length (arrays4 s0) + 2"
    and "length (arrays2 s1) = Suc (length (arrays2 s0))"
  using assms
  by (auto simp: DataManager_init_def alloc2_def alloc4_def Let_def dm_ok_def zeros_def
      nth_append add_diff_eq split: if_splits)

lemma global_indices: "map (\<lambda>i. i + b) [0..<l] = [b..<b + l]"
  by (simp add: map_add_upt add.commute)

lemma selection:
  assumes "0 \<le> bs" and "idx < nat sl"
  shows "(if int idx = sl - 1 then py_slice (Some (int idx)) None [b..<b + nat (bs + (sl - 1))]
          else py_slice (Some (int idx)) (Some (- ((sl - 1) - int idx))) [b..<b + nat (bs + (sl - 1))])
         = [b + idx..<b + idx + nat bs]"
proof (cases "int idx = sl - 1")
  case True
  then have "nat (bs + (sl - 1)) = idx + nat bs" and "nat (sl - 1) = idx"
    using assms by linarith+
  with True show ?thesis by (simp add: py_slice_def norm_bound_def Let_def add.assoc)
next
  case False
  with assms have lt: "int idx < sl - 1" by linarith
  have l: "nat (bs + (sl - 1)) = nat bs + nat (sl - 1)" using assms by linarith
  have n: "nat (int (nat bs + nat (sl - 1)) + (- ((sl - 1) - int idx))) = idx + nat bs"
    using assms lt by linarith
  have m: "min (nat bs + nat (sl - 1)) idx = idx" using lt by linarith
  have k: "idx + nat bs \<le> nat bs + nat (sl - 1)" using lt by linarith
  from False lt show ?thesis
    using n m k by (simp add: py_slice_def norm_bound_def Let_def l take_upt add.assoc)
qed


subsection \<open>Filling the buffer\<close>

lemma channel_block:
  assumes "idx < sl"
  shows "min (c * sl) (c * idx) = (c::nat) * idx"
    and "max (c * idx) (min (c * sl) (c * (idx + 1))) = c * (idx + 1)"
    and "c * (idx + 1) - c * idx = c"
proof -
  have a: "c * idx \<le> c * sl" using assms by simp
  have b: "c * (idx + 1) \<le> c * sl" using assms by (simp del: mult_Suc_right)
  show "min (c * sl) (c * idx) = c * idx" using a by simp
  show "max (c * idx) (min (c * sl) (c * (idx + 1))) = c * (idx + 1)" using b by simp
  show "c * (idx + 1) - c * idx = c" by simp
qed

lemma set_channels_Inr:
  assumes "d0 src = d0 tgt" and "d1 src = d1 tgt" and "d2 src = d2 tgt"
    and "d3 tgt = c * sl" and "d3 src = c" and "idx < sl"
  shows "set_channels conv (c * idx) (c * (idx + 1)) src tgt =
     Inr (tgt\<lparr>item := (\<lambda>e y x k.
            if c * idx \<le> k \<and> k < c * (idx + 1)
            then conv (item src (bix (d0 src) e) (bix (d1 src) y) (bix (d2 src) x)
                         (bix (d3 src) (k - c * idx)))
            else item tgt e y x k)\<rparr>)"
  using assms channel_block [OF assms(6), of c]
  by (simp add: set_channels_def Let_def bcast_def del: mult_Suc_right)

lemma fill_step_ok:
  assumes ok: "dm_ok dm s ps imgs" and idx: "idx < nat (seq_len dm)"
    and fit: "b + length (image_indices dm) \<le> N dm"
  shows "\<exists>s'. fill_step conv dm (map (\<lambda>i. i + b) (image_indices dm)) idx s = Inr s'
     \<and> dm_ok dm s' ps imgs \<and> arrays2 s' = arrays2 s \<and> length (arrays4 s') = length (arrays4 s)
     \<and> (\<forall>e y x k. e < nat (batch_size dm) \<longrightarrow> y < d1 imgs \<longrightarrow> x < d2 imgs \<longrightarrow>
           item (arrays4 s' ! image_stack_batch dm) e y x k =
             (if d3 imgs * idx \<le> k \<and> k < d3 imgs * (idx + 1)
              then conv (item imgs (b + idx + e) y x (k - d3 imgs * idx))
              else item (arrays4 s ! image_stack_batch dm) e y x k))"
proof -
  let ?bs = "batch_size dm" and ?sl = "seq_len dm" and ?c = "d3 imgs"
  let ?buf = "arrays4 s ! image_stack_batch dm"
  let ?g = "map (\<lambda>i. i + b) (image_indices dm)"
  let ?sel = "[b + idx..<b + idx + nat ?bs]"
  from ok have bs: "0 \<le> ?bs" and af: "add_frames dm = ?sl - 1"
    and ii: "image_indices dm = [0..<nat (?bs + (?sl - 1))]"
    and n: "N dm = d0 imgs" and c: "C dm = ?c"
    and im: "arrays4 s ! images dm = imgs"
    and shape: "d0 ?buf = nat ?bs" "d1 ?buf = d1 imgs" "d2 ?buf = d2 imgs"
      "d3 ?buf = nat (int ?c * ?sl)"
    and addr: "image_stack_batch dm < length (arrays4 s)" "image_stack_batch dm \<noteq> images dm"
    by (simp_all add: dm_ok_def)
  have g: "?g = [b..<b + nat (?bs + (?sl - 1))]"
    by (simp add: ii global_indices)
  have sel: "(if int idx = ?sl - 1 then py_slice (Some (int idx)) None ?g
              else py_slice (Some (int idx)) (Some (- (add_frames dm - int idx))) ?g) = ?sel"
    unfolding g af by (rule selection [OF bs idx])
  have "idx + nat ?bs \<le> nat (?bs + (?sl - 1))" using bs idx by linarith
  with fit have inside: "b + idx + nat ?bs \<le> d0 imgs" by (simp add: ii n)
  then have rows: "take_rows imgs ?sel =
      Inr (imgs\<lparr>d0 := nat ?bs, item := (\<lambda>e. item imgs (?sel ! e))\<rparr>)"
    by (auto simp: take_rows_def list_all_iff)
  let ?src = "imgs\<lparr>d0 := nat ?bs, item := (\<lambda>e. item imgs (?sel ! e))\<rparr>"
  have "nat (int ?c * ?sl) = nat (int ?c) * nat ?sl"
    by (rule nat_mult_distrib) simp
  then have d3: "d3 ?buf = ?c * nat ?sl"
    by (simp only: shape(4) nat_int)
  let ?new = "?buf\<lparr>item := (\<lambda>e y x k.
            if ?c * idx \<le> k \<and> k < ?c * (idx + 1)
            then conv (item ?src (bix (d0 ?src) e) (bix (d1 ?src) y) (bix (d2 ?src) x)
                         (bix (d3 ?src) (k - ?c * idx)))
            else item ?buf e y x k)\<rparr>"
  have setc: "set_channels conv (?c * idx) (?c * (idx + 1)) ?src ?buf = Inr ?new"
    by (rule set_channels_Inr [where sl = "nat ?sl"]) (simp_all add: shape(1,2,3) d3 idx)
  let ?s' = "s\<lparr>arrays4 := (arrays4 s)[image_stack_batch dm := ?new]\<rparr>"
  have step: "fill_step conv dm ?g idx s = Inr ?s'"
    unfolding fill_step_def Let_def sel c im using rows setc by simp
  have ok': "dm_ok dm ?s' ps imgs"
    using ok addr by (simp add: dm_ok_def)
  have content: "item (arrays4 ?s' ! image_stack_batch dm) e y x k =
             (if ?c * idx \<le> k \<and> k < ?c * (idx + 1)
              then conv (item imgs (b + idx + e) y x (k - ?c * idx))
              else item ?buf e y x k)"
    if "e < nat ?bs" "y < d1 imgs" "x < d2 imgs" for e y x k
  proof -
    have "k - ?c * idx < ?c" if "?c * idx \<le> k" "k < ?c * (idx + 1)"
      using that by simp
    then show ?thesis using that addr by (auto simp del: mult_Suc_right)
  qed
  show ?thesis
    using step ok' content by (intro exI [of _ ?s']) simp
qed


lemma block_index:
  assumes "ch < (c::nat)"
  shows "(c * idx \<le> c * t + ch \<and> c * t + ch < c * (idx + 1)) \<longleftrightarrow> t = idx"
proof (cases t idx rule: linorder_cases)
  case less
  then have "c * (t + 1) \<le> c * idx" by (simp del: mult_Suc_right)
  moreover have "c * t + ch < c * (t + 1)" using assms by simp
  ultimately show ?thesis using less by simp
next
  case equal
  then show ?thesis using assms by simp
next
  case greater
  then have "c * (idx + 1) \<le> c * t" by (simp del: mult_Suc_right)
  then show ?thesis using greater by simp
qed

lemma fill_loop_ok:
  assumes "dm_ok dm s ps imgs" and "b + length (image_indices dm) \<le> N dm"
    and "list_all (\<lambda>i. i < nat (seq_len dm)) idxs"
  shows "\<exists>s'. fill_loop conv dm (map (\<lambda>i. i + b) (image_indices dm)) idxs s = (s', None)
     \<and> dm_ok dm s' ps imgs \<and> arrays2 s' = arrays2 s \<and> length (arrays4 s') = length (arrays4 s)
     \<and> (\<forall>e y x t ch. e < nat (batch_size dm) \<longrightarrow> y < d1 imgs \<longrightarrow> x < d2 imgs
           \<longrightarrow> ch < d3 imgs \<longrightarrow>
           item (arrays4 s' ! image_stack_batch dm) e y x (d3 imgs * t + ch) =
             (if t \<in> set idxs then conv (item imgs (b + t + e) y x ch)
              else item (arrays4 s ! image_stack_batch dm) e y x (d3 imgs * t + ch)))"
  using assms
proof (induction idxs arbitrary: s)
  case Nil
  then show ?case by simp
next
  case (Cons idx rest)
  let ?g = "map (\<lambda>i. i + b) (image_indices dm)"
  from Cons.prems have idx: "idx < nat (seq_len dm)"
    and rest: "list_all (\<lambda>i. i < nat (seq_len dm)) rest" by simp_all
  from fill_step_ok [OF Cons.prems(1) idx Cons.prems(2), of conv] obtain s1 where
    step: "fill_step conv dm ?g idx s = Inr s1" and ok1: "dm_ok dm s1 ps imgs"
    and a2: "arrays2 s1 = arrays2 s" and l4: "length (arrays4 s1) = length (arrays4 s)"
    and c1: "\<And>e y x k. e < nat (batch_size dm) \<Longrightarrow> y < d1 imgs \<Longrightarrow> x < d2 imgs \<Longrightarrow>
           item (arrays4 s1 ! image_stack_batch dm) e y x k =
             (if d3 imgs * idx \<le> k \<and> k < d3 imgs * (idx + 1)
              then conv (item imgs (b + idx + e) y x (k - d3 imgs * idx))
              else item (arrays4 s ! image_stack_batch dm) e y x k)"
    by blast
  from Cons.IH [OF ok1 Cons.prems(2) rest] obtain s' where
    loop: "fill_loop conv dm ?g rest s1 = (s', None)" and ok': "dm_ok dm s' ps imgs"
    and a2': "arrays2 s' = arrays2 s1" and l4': "length (arrays4 s') = length (arrays4 s1)"
    and c': "\<And>e y x t ch. e < nat (batch_size dm) \<Longrightarrow> y < d1 imgs \<Longrightarrow> x < d2 imgs
           \<Longrightarrow> ch < d3 imgs \<Longrightarrow>
           item (arrays4 s' ! image_stack_batch dm) e y x (d3 imgs * t + ch) =
             (if t \<in> set rest then conv (item imgs (b + t + e) y x ch)
              else item (arrays4 s1 ! image_stack_batch dm) e y x (d3 imgs * t + ch))"
    by blast
  have "item (arrays4 s' ! image_stack_batch dm) e y x (d3 imgs * t + ch) =
             (if t \<in> set (idx # rest) then conv (item imgs (b + t + e) y x ch)
              else item (arrays4 s ! image_stack_batch dm) e y x (d3 imgs * t + ch))"
    if "e < nat (batch_size dm)" "y < d1 imgs" "x < d2 imgs" "ch < d3 imgs" for e y x t ch
    using that c' [OF that] c1 [OF that(1,2,3), of "d3 imgs * t + ch"]
      block_index [OF that(4), of idx t]
    by (auto simp del: mult_Suc_right)
  then show ?case
    using step loop ok' a2 a2' l4 l4' by simp
qed


subsection \<open>One batch and the loop over the batches\<close>

lemma batch_body_effect:
  assumes ok: "dm_ok dm s ps imgs" and fit: "b + length (image_indices dm) \<le> N dm"
  shows "case batch_body conv dm b s of
           (s', Inl e) \<Rightarrow>
             s' = s \<and> pose_differences dm ps (map (\<lambda>i. i + b) (image_indices dm)) = Inl e
         | (s', Inr y) \<Rightarrow>
             batch_at conv dm ps imgs b (y, s')
             \<and> length (arrays4 s') = length (arrays4 s)
             \<and> snd y = length (arrays2 s)
             \<and> length (arrays2 s') = Suc (length (arrays2 s))"
proof -
  let ?g = "map (\<lambda>i. i + b) (image_indices dm)"
  from ok have p: "arrays2 s ! poses dm = ps" and pl: "poses dm < length (arrays2 s)"
    by (simp_all add: dm_ok_def)
  show ?thesis
  proof (cases "pose_differences dm ps ?g")
    case (Inl e)
    then show ?thesis by (simp add: batch_body_def p)
  next
    case (Inr diff)
    let ?s1 = "s\<lparr>arrays2 := arrays2 s @ [diff]\<rparr>"
    have ok1: "dm_ok dm ?s1 ps imgs"
      using ok by (simp add: dm_ok_def nth_append)
    have all: "list_all (\<lambda>i. i < nat (seq_len dm)) [0..<nat (seq_len dm)]"
      by (simp add: list_all_iff)
    from fill_loop_ok [OF ok1 fit all, of conv] obtain s2 where
      loop: "fill_loop conv dm ?g [0..<nat (seq_len dm)] ?s1 = (s2, None)"
      and ok2: "dm_ok dm s2 ps imgs"
      and a2: "arrays2 s2 = arrays2 ?s1" and l4: "length (arrays4 s2) = length (arrays4 ?s1)"
      and c2: "\<And>e y x t ch. e < nat (batch_size dm) \<Longrightarrow> y < d1 imgs \<Longrightarrow> x < d2 imgs
           \<Longrightarrow> ch < d3 imgs \<Longrightarrow>
           item (arrays4 s2 ! image_stack_batch dm) e y x (d3 imgs * t + ch) =
             (if t \<in> set [0..<nat (seq_len dm)] then conv (item imgs (b + t + e) y x ch)
              else item (arrays4 ?s1 ! image_stack_batch dm) e y x (d3 imgs * t + ch))"
      by blast
    have body: "batch_body conv dm b s = (s2, Inr (image_stack_batch dm, length (arrays2 s)))"
      using Inr loop by (simp add: batch_body_def p alloc2_def)
    have "batch_at conv dm ps imgs b ((image_stack_batch dm, length (arrays2 s)), s2)"
      using ok2 fit a2 Inr c2 by (simp add: batch_at_def)
    then show ?thesis using body a2 l4 by simp
  qed
qed

lemma batches_loop_yields:
  assumes "dm_ok dm s ps imgs" and "batches_loop conv dm idxs s = (ys, sf, r)"
  shows "dm_ok dm sf ps imgs \<and> length (arrays4 sf) = length (arrays4 s)
       \<and> (\<forall>j<length ys. j < length idxs
             \<and> batch_at conv dm ps imgs (idxs ! j) (ys ! j)
             \<and> length (arrays4 (snd (ys ! j))) = length (arrays4 s)
             \<and> snd (fst (ys ! j)) = length (arrays2 s) + j)"
  using assms
proof (induction idxs arbitrary: s ys sf r)
  case Nil
  then show ?case by simp
next
  case (Cons b rest)
  show ?case
  proof (cases "b + length (image_indices dm) > N dm")
    case True
    with Cons.prems show ?thesis by simp
  next
    case False
    then have fit: "b + length (image_indices dm) \<le> N dm" by simp
    obtain s' res where body: "batch_body conv dm b s = (s', res)"
      by (cases "batch_body conv dm b s")
    show ?thesis
    proof (cases res)
      case (Inl e)
      with batch_body_effect [OF Cons.prems(1) fit, of conv] body Cons.prems False
      show ?thesis by simp
    next
      case (Inr y)
      with batch_body_effect [OF Cons.prems(1) fit, of conv] body
      have at: "batch_at conv dm ps imgs b (y, s')"
        and l4: "length (arrays4 s') = length (arrays4 s)"
        and y2: "snd y = length (arrays2 s)"
        and l2: "length (arrays2 s') = Suc (length (arrays2 s))"
        by simp_all
      from at have ok': "dm_ok dm s' ps imgs" by (simp add: batch_at_def)
      obtain ys' sf' r' where rest: "batches_loop conv dm rest s' = (ys', sf', r')"
        by (cases "batches_loop conv dm rest s'")
      with Cons.prems(2) False body Inr
      have ys: "ys = (y, s') # ys'" and sf: "sf = sf'" by simp_all
      from Cons.IH [OF ok' rest]
      have ih: "dm_ok dm sf' ps imgs" "length (arrays4 sf') = length (arrays4 s')"
        "\<And>j. j < length ys' \<Longrightarrow> j < length rest
             \<and> batch_at conv dm ps imgs (rest ! j) (ys' ! j)
             \<and> length (arrays4 (snd (ys' ! j))) = length (arrays4 s')
             \<and> snd (fst (ys' ! j)) = length (arrays2 s') + j"
        by simp_all
      have "j < length (b # rest)
             \<and> batch_at conv dm ps imgs ((b # rest) ! j) (ys ! j)
             \<and> length (arrays4 (snd (ys ! j))) = length (arrays4 s)
             \<and> snd (fst (ys ! j)) = length (arrays2 s) + j" if "j < length ys" for j
      proof (cases j)
        case 0
        then show ?thesis using ys at l4 y2 by simp
      next
        case (Suc j')
        with that ys have "j' < length ys'" by simp
        from ih(3) [OF this] show ?thesis using Suc ys l4 l2 by simp
      qed
      then show ?thesis using ih(1,2) sf l4 by simp
    qed
  qed
qed

lemma batches_loop_count:
  assumes "dm_ok dm s ps imgs" and "batches_loop conv dm idxs s = (ys, sf, r)"
    and "\<And>b. b + length (image_indices dm) \<le> N dm \<Longrightarrow>
           \<exists>d. pose_differences dm ps (map (\<lambda>i. i + b) (image_indices dm)) = Inr d"
  shows "r = None
       \<and> length ys = length (takeWhile (\<lambda>b. b + length (image_indices dm) \<le> N dm) idxs)"
  using assms(1,2)
proof (induction idxs arbitrary: s ys sf r)
  case Nil
  then show ?case by simp
next
  case (Cons b rest)
  show ?case
  proof (cases "b + length (image_indices dm) > N dm")
    case True
    with Cons.prems show ?thesis by simp
  next
    case False
    then have fit: "b + length (image_indices dm) \<le> N dm" by simp
    obtain s' res where body: "batch_body conv dm b s = (s', res)"
      by (cases "batch_body conv dm b s")
    from assms(3) [OF fit] obtain d where
      d: "pose_differences dm ps (map (\<lambda>i. i + b) (image_indices dm)) = Inr d" by blast
    show ?thesis
    proof (cases res)
      case (Inl e)
      with batch_body_effect [OF Cons.prems(1) fit, of conv] body d
      show ?thesis by simp
    next
      case (Inr y)
      with batch_body_effect [OF Cons.prems(1) fit, of conv] body
      have "batch_at conv dm ps imgs b (y, s')" by simp
      then have ok': "dm_ok dm s' ps imgs" by (simp add: batch_at_def)
      obtain ys' sf' r' where rest: "batches_loop conv dm rest s' = (ys', sf', r')"
        by (cases "batches_loop conv dm rest s'")
      with Cons.prems(2) False body Inr
      have ys: "ys = (y, s') # ys'" and r: "r = r'" by simp_all
      from Cons.IH [OF ok' rest] ys r fit show ?thesis by simp
    qed
  qed
qed

subsection \<open>The pose differences\<close>

lemma take_poses_upt:
  "j \<le> length ps \<or> j \<le> i \<Longrightarrow> take_poses ps [i..<j] = Inr (map (\<lambda>k. ps ! k) [i..<j])"
  by (auto simp: take_poses_def list_all_iff)

lemma take_poses_upt_fail:
  "i < j \<Longrightarrow> length ps < j \<Longrightarrow> take_poses ps [i..<j] = Inl IndexError"
  by (auto simp: take_poses_def list_all_iff intro!: bexI [of _ "j - 1"])

lemma pose_differences_pairs:
  assumes ok: "dm_ok dm s ps imgs" and sl: "2 \<le> seq_len dm"
  shows "pose_differences dm ps (map (\<lambda>i. i + b) (image_indices dm)) =
     (if nat (batch_size dm) = 0 \<or> b + length (image_indices dm) \<le> length ps
      then Inr (map (\<lambda>e. sub_rows (ps ! (b + e + nat (seq_len dm - 1))) (ps ! (b + e)))
                  [0..<nat (batch_size dm)])
      else Inl IndexError)"
proof -
  let ?bs = "batch_size dm" and ?af = "seq_len dm - 1"
  let ?l = "nat (?bs + ?af)"
  from ok have bs: "0 \<le> ?bs" and af: "add_frames dm = ?af"
    and ii: "image_indices dm = [0..<?l]" by (simp_all add: dm_ok_def)
  have l: "?l = nat ?af + nat ?bs" using bs sl by linarith
  have g: "map (\<lambda>i. i + b) (image_indices dm) = [b..<b + ?l]"
    by (simp add: ii global_indices)
  have later: "py_slice (Some ?af) None [b..<b + ?l] = [b + nat ?af..<b + ?l]"
    using sl by (simp add: py_slice_def norm_bound_def Let_def l)
  have "nat (int (nat ?af + nat ?bs) + - ?af) = nat ?bs" using bs sl by linarith
  then have first: "py_slice None (Some (- ?af)) [b..<b + ?l] = [b..<b + nat ?bs]"
    using sl by (simp add: py_slice_def norm_bound_def Let_def l take_upt)
  show ?thesis
  proof (cases "nat ?bs = 0 \<or> b + ?l \<le> length ps")
    case True
    then have t1: "take_poses ps [b + nat ?af..<b + ?l]
        = Inr (map (\<lambda>k. ps ! k) [b + nat ?af..<b + ?l])"
      by (intro take_poses_upt) (auto simp: l)
    from True have t2: "take_poses ps [b..<b + nat ?bs] = Inr (map (\<lambda>k. ps ! k) [b..<b + nat ?bs])"
      by (intro take_poses_upt) (auto simp: l)
    have "map2 sub_rows (map (\<lambda>k. ps ! k) [b + nat ?af..<b + ?l])
              (map (\<lambda>k. ps ! k) [b..<b + nat ?bs])
        = map (\<lambda>e. sub_rows (ps ! (b + e + nat ?af)) (ps ! (b + e))) [0..<nat ?bs]"
      by (rule nth_equalityI) (simp_all add: l add.assoc add.commute add.left_commute)
    then show ?thesis
      unfolding pose_differences_def af g later first t1 t2
      using True by (simp add: sub_poses_def l ii)
  next
    case False
    then have "take_poses ps [b + nat ?af..<b + ?l] = Inl IndexError"
      by (intro take_poses_upt_fail) (auto simp: l)
    then show ?thesis
      unfolding pose_differences_def af g later
      using False by (simp add: ii)
  qed
qed

lemma pose_differences_single:
  assumes ok: "dm_ok dm s ps imgs" and sl: "seq_len dm = 1" and bs: "2 \<le> batch_size dm"
  shows "pose_differences dm ps (map (\<lambda>i. i + b) (image_indices dm)) =
     (if b + nat (batch_size dm) \<le> length ps then Inl ValueError else Inl IndexError)"
proof -
  let ?bs = "batch_size dm"
  from ok sl have af: "add_frames dm = 0"
    and ii: "image_indices dm = [0..<nat ?bs]" by (simp_all add: dm_ok_def)
  have g: "map (\<lambda>i. i + b) (image_indices dm) = [b..<b + nat ?bs]"
    by (simp add: ii global_indices)
  have later: "py_slice (Some 0) None [b..<b + nat ?bs] = [b..<b + nat ?bs]"
    by (simp add: py_slice_def norm_bound_def Let_def)
  have first: "py_slice None (Some (- 0)) [b..<b + nat ?bs] = []"
    by (simp add: py_slice_def norm_bound_def Let_def)
  have none: "take_poses ps [] = Inr []" by (simp add: take_poses_def)
  show ?thesis
  proof (cases "b + nat ?bs \<le> length ps")
    case True
    then have "take_poses ps [b..<b + nat ?bs] = Inr (map (\<lambda>k. ps ! k) [b..<b + nat ?bs])"
      by (intro take_poses_upt) simp
    then show ?thesis
      unfolding pose_differences_def af g later first none
      using True bs by (simp add: sub_poses_def)
  next
    case False
    then have "take_poses ps [b..<b + nat ?bs] = Inl IndexError"
      using bs by (intro take_poses_upt_fail) auto
    then show ?thesis
      unfolding pose_differences_def af g later
      using False by simp
  qed
qed


subsection \<open>The batches yielded\<close>

lemma batches_yields:
  assumes ok: "dm_ok dm s ps imgs" and run: "batches conv dm s = (ys, sf, r)"
  shows "dm_ok dm sf ps imgs \<and> length (arrays4 sf) = length (arrays4 s)
       \<and> (\<forall>j<length ys.
             batch_at conv dm ps imgs (j * length (image_indices dm)) (ys ! j)
             \<and> length (arrays4 (snd (ys ! j))) = length (arrays4 s)
             \<and> snd (fst (ys ! j)) = length (arrays2 s) + j)"
proof (cases "length (image_indices dm) = 0")
  case True
  with run have "ys = []" "sf = s" by (simp_all add: batches_def py_range_def)
  with ok show ?thesis by simp
next
  case False
  let ?l = "length (image_indices dm)"
  let ?idxs = "map (\<lambda>j. j * ?l) [0..<(N dm + ?l - 1) div ?l]"
  from False run have loop: "batches_loop conv dm ?idxs s = (ys, sf, r)"
    by (simp add: batches_def py_range_def)
  from batches_loop_yields [OF ok loop] show ?thesis by auto
qed

text \<open>The definitions to unfold when the batch manager is run on a concrete input.\<close>

lemmas eval_batches = DataManager_init_def alloc2_def alloc4_def zeros_def batches_def
  py_range_def batch_body_def pose_differences_def take_poses_def sub_poses_def sub_rows_def
  py_slice_def norm_bound_def fill_step_def take_rows_def set_channels_def bcast_def bix_def
  Let_def example_poses_def example_frames_def empty_store_def

lemma example_init_Inr:
  "DataManager_init (example_poses 6) (example_frames 6) 2 2 empty_store
     = Inr (fst (projr example_init), snd (projr example_init))"
  by (simp add: example_init_def eval_batches)

lemma example_run_eq:
  "batches (\<lambda>v. v) (fst (projr example_init)) (snd (projr example_init))
     = (fst example_run, fst (snd example_run), snd (snd example_run))"
  by (simp add: example_run_def)

lemma example_run_length: "length (fst example_run) = 2"
  by (simp add: example_run_def example_init_def eval_batches upt_rec)

lemma float64_of_int_exact: "\<bar>v\<bar> < 2 ^ 53 \<Longrightarrow> float64_of_int v = v"
proof -
  assume "\<bar>v\<bar> < 2 ^ 53"
  then have "nat \<bar>v\<bar> < 2 ^ 53" by (simp add: nat_less_iff)
  then have "excess_bits (nat \<bar>v\<bar>) = 0" by (simp add: excess_bits.simps)
  then show ?thesis by (simp add: float64_of_int_def Let_def mult_sgn_abs)
qed

lemma float64_of_int_tie: "float64_of_int 9007199254740993 = 9007199254740992"
proof -
  have "excess_bits 9007199254740993 = Suc (excess_bits 4503599627370496)"
    by (subst excess_bits.simps) simp
  also have "excess_bits 4503599627370496 = 0"
    by (subst excess_bits.simps) simp
  finally have "excess_bits 9007199254740993 = 1" by simp
  then show ?thesis by (simp add: float64_of_int_def Let_def)
qed

text \<open>
  C1, amended. In every batch yielded by \<^verbatim>\<open>batches\<close>, for every example \<open>e\<close> below
  \<open>batch_size\<close> and every block \<open>idx\<close> below \<open>seq_len\<close>, the channels
  \<open>[C * idx, C * (idx + 1))\<close> of example \<open>e\<close> of the buffer, as the caller
  receives it, hold frame \<open>batch_offset + e + idx\<close> of the loaded images converted
  to the element type of the buffer, \<open>batch_offset\<close> being
  \<open>j * (batch_size + seq_len - 1)\<close> for the batch number \<open>j\<close>; they equal the
  frame itself wherever the conversion does not change the element.
\<close>

theorem batches_stack_content:
  assumes init: "DataManager_init ps imgs bs sl s0 = Inr (dm, s1)"
    and run: "batches conv dm s1 = (ys, sf, r)"
    and j: "j < length ys" and e: "e < nat bs" and idx: "idx < nat sl"
    and y: "y < d1 imgs" and x: "x < d2 imgs" and ch: "ch < d3 imgs"
  shows "item (arrays4 (snd (ys ! j)) ! fst (fst (ys ! j))) e y x (C dm * idx + ch)
           = conv (item imgs (j * nat (bs + sl - 1) + e + idx) y x ch)
       \<and> (conv (item imgs (j * nat (bs + sl - 1) + e + idx) y x ch)
            = item imgs (j * nat (bs + sl - 1) + e + idx) y x ch \<longrightarrow>
          item (arrays4 (snd (ys ! j)) ! fst (fst (ys ! j))) e y x (C dm * idx + ch)
            = item imgs (j * nat (bs + sl - 1) + e + idx) y x ch)"
proof -
  note ok = init_facts(1) [OF init] and sl = init_facts(2) [OF init]
    and bs = init_facts(3) [OF init] and c = init_facts(5) [OF init]
    and l = init_facts(9) [OF init]
  from batches_yields [OF ok run] j
  have at: "batch_at conv dm ps imgs (j * nat (bs + sl - 1)) (ys ! j)"
    by (simp add: l)
  then have "fst (fst (ys ! j)) = image_stack_batch dm" by (simp add: batch_at_def)
  moreover from at e idx y x ch
  have "item (arrays4 (snd (ys ! j)) ! image_stack_batch dm) e y x (d3 imgs * idx + ch)
          = conv (item imgs (j * nat (bs + sl - 1) + idx + e) y x ch)"
    by (simp add: batch_at_def sl bs)
  ultimately show ?thesis by (simp add: c add.assoc add.commute add.left_commute)
qed

lemma float_run_eq:
  "batches float64_of_int (fst (projr example_init)) (snd (projr example_init))
     = (fst float_run, fst (snd float_run), snd (snd float_run))"
  by (simp add: float_run_def)

lemma float_run_length: "length (fst float_run) = 2"
  by (simp add: float_run_def example_init_def eval_batches upt_rec)

theorem batches_stack_content_witness:
  "example_init = Inr (fst (projr example_init), snd (projr example_init))
   \<and> (1::nat) < length (fst float_run) \<and> (1::nat) < nat 2
   \<and> 0 < d1 (example_frames 6) \<and> 0 < d2 (example_frames 6) \<and> 1 < d3 (example_frames 6)
   \<and> float64_of_int (item (example_frames 6) (1 * nat (2 + 2 - 1) + 1 + 1) 0 0 1)
       = item (example_frames 6) (1 * nat (2 + 2 - 1) + 1 + 1) 0 0 1
   \<and> item (arrays4 (snd (fst float_run ! 1)) ! fst (fst (fst float_run ! 1))) 1 0 0
        (C (fst (projr example_init)) * 1 + 1)
      = item (example_frames 6) (1 * nat (2 + 2 - 1) + 1 + 1) 0 0 1
   \<and> item (example_frames 6) (1 * nat (2 + 2 - 1) + 1 + 1) 0 0 1 = 51"
proof -
  have h1: "example_init = Inr (fst (projr example_init), snd (projr example_init))"
    using example_init_Inr by (simp only: example_init_def)
  have h3: "(1::nat) < length (fst float_run)" by (simp add: float_run_length)
  have h4: "(1::nat) < nat 2" by simp
  have h5: "0 < d1 (example_frames 6)" "0 < d2 (example_frames 6)" "1 < d3 (example_frames 6)"
    by (simp_all add: example_frames_def)
  have v: "item (example_frames 6) (1 * nat (2 + 2 - 1) + 1 + 1) 0 0 1 = 51"
    by (simp add: example_frames_def)
  have exact: "float64_of_int (item (example_frames 6) (1 * nat (2 + 2 - 1) + 1 + 1) 0 0 1)
       = item (example_frames 6) (1 * nat (2 + 2 - 1) + 1 + 1) 0 0 1"
    unfolding v by (rule float64_of_int_exact) simp
  note main = batches_stack_content [OF example_init_Inr float_run_eq h3 h4 h4 h5]
  note same = main [THEN conjunct2, rule_format, OF exact]
  show ?thesis by (intro conjI h1 h3 h4 h5 exact same v)
qed

text \<open>
  The buffer is an array of 64-bit floats. From two one-channel frames of 64-bit
  integers that hold \<open>2 ^ 53 + 1\<close>, the batch yielded holds \<open>2 ^ 53\<close>, the
  nearest float: the channel block does not equal the frame.
\<close>

theorem batches_stack_content_counterexample:
  "length (fst big_run) = 1
   \<and> item (arrays4 (snd (fst big_run ! 0)) ! fst (fst (fst big_run ! 0))) 0 0 0 0
       = 9007199254740992
   \<and> item big_frames 0 0 0 0 = 9007199254740993"
  by (simp add: big_run_def big_init_def big_frames_def eval_batches upt_rec
      float64_of_int_tie)

text \<open>
  C2, amended. For \<open>seq_len \<ge> 2\<close>, in every batch yielded by \<^verbatim>\<open>batches\<close> the
  pose-difference array has \<open>batch_size\<close> rows, and its row \<open>e\<close> is the pose at the
  last frame of the window of example \<open>e\<close> minus the pose at its first frame:
  \<open>pose[g + seq_len - 1] - pose[g]\<close> for \<open>g = batch_offset + e\<close>.
\<close>

theorem batches_pose_deltas:
  assumes init: "DataManager_init ps imgs bs sl s0 = Inr (dm, s1)"
    and run: "batches conv dm s1 = (ys, sf, r)"
    and sl2: "2 \<le> sl" and j: "j < length ys" and e: "e < nat bs"
  shows "length (arrays2 (snd (ys ! j)) ! snd (fst (ys ! j))) = nat bs
       \<and> arrays2 (snd (ys ! j)) ! snd (fst (ys ! j)) ! e
           = sub_rows (ps ! (j * nat (bs + sl - 1) + e + nat (sl - 1)))
                      (ps ! (j * nat (bs + sl - 1) + e))"
proof -
  note ok = init_facts(1) [OF init] and sl = init_facts(2) [OF init]
    and bs = init_facts(3) [OF init] and l = init_facts(9) [OF init]
  let ?b = "j * nat (bs + sl - 1)"
  let ?d = "arrays2 (snd (ys ! j)) ! snd (fst (ys ! j))"
  from batches_yields [OF ok run] j
  have "batch_at conv dm ps imgs ?b (ys ! j)" by (simp add: l)
  then have "pose_differences dm ps (map (\<lambda>i. i + ?b) (image_indices dm)) = Inr ?d"
    by (simp add: batch_at_def)
  with pose_differences_pairs [OF ok, of ?b] sl2
  have "?d = map (\<lambda>e. sub_rows (ps ! (?b + e + nat (sl - 1))) (ps ! (?b + e))) [0..<nat bs]"
    by (simp add: sl bs split: if_splits)
  then show ?thesis using e by simp
qed

theorem batches_pose_deltas_witness:
  "example_init = Inr (fst (projr example_init), snd (projr example_init))
   \<and> (2::int) \<le> 2 \<and> (1::nat) < length (fst example_run) \<and> (1::nat) < nat 2
   \<and> length (arrays2 (snd (fst example_run ! 1)) ! snd (fst (fst example_run ! 1))) = nat 2
   \<and> arrays2 (snd (fst example_run ! 1)) ! snd (fst (fst example_run ! 1)) ! 1
       = sub_rows (example_poses 6 ! (1 * nat (2 + 2 - 1) + 1 + nat (2 - 1)))
                  (example_poses 6 ! (1 * nat (2 + 2 - 1) + 1))"
proof -
  have h1: "example_init = Inr (fst (projr example_init), snd (projr example_init))"
    using example_init_Inr by (simp only: example_init_def)
  have h2: "(2::int) \<le> 2" by simp
  have h3: "(1::nat) < length (fst example_run)" by (simp add: example_run_length)
  have h4: "(1::nat) < nat 2" by simp
  note main = batches_pose_deltas [OF example_init_Inr example_run_eq h2 h3 h4]
  show ?thesis by (intro conjI h1 h2 h3 h4 main [THEN conjunct1] main [THEN conjunct2])
qed

text \<open>
  With \<open>seq_len = 1\<close> and \<open>batch_size = 1\<close> a batch is yielded whose pose-difference
  array has no row: the slice \<^verbatim>\<open>[:-0]\<close> is empty and the single selected pose is
  broadcast against it.
\<close>

theorem batches_pose_deltas_counterexample:
  "length (fst (single_run 1 1)) = 1
   \<and> arrays2 (snd (fst (single_run 1 1) ! 0)) ! snd (fst (fst (single_run 1 1) ! 0)) = []"
  by (simp add: single_run_def single_init_def eval_batches upt_rec)


lemma takeWhile_less_upt: "q \<le> m \<Longrightarrow> takeWhile (\<lambda>j. j < q) [0..<m] = [0..<q]"
proof -
  assume "q \<le> m"
  then have "[0..<m] = [0..<q] @ [q..<m]"
    using upt_add_eq_append [of 0 q "m - q"] by simp
  moreover have "takeWhile (\<lambda>j. j < q) [q..<m] = []"
    by (cases "q < m") (simp_all add: upt_conv_Cons)
  moreover have "takeWhile (\<lambda>j. j < q) ([0..<q] @ [q..<m])
      = [0..<q] @ takeWhile (\<lambda>j. j < q) [q..<m]"
    by (rule takeWhile_append2) simp
  ultimately show ?thesis by simp
qed

lemma complete_batches:
  assumes "0 < l"
  shows "length (takeWhile (\<lambda>b. b + l \<le> n) (map (\<lambda>j. j * l) [0..<(n + l - 1) div l])) = n div l"
proof -
  have fit: "(j * l + l \<le> n) = (j < n div l)" for j
    using assms less_eq_div_iff_mult_less_eq [of l "Suc j" n]
    by (simp add: Suc_le_eq add.commute)
  have "n div l \<le> (n + l - 1) div l" using assms by (intro div_le_mono) simp
  then show ?thesis
    by (simp add: takeWhile_map comp_def fit takeWhile_less_upt)
qed

text \<open>
  C3, amended. For \<open>seq_len \<ge> 2\<close> and at least as many poses as frames, a pass of
  \<^verbatim>\<open>batches\<close> over \<open>N\<close> frames yields exactly
  \<open>N div (batch_size + seq_len - 1)\<close> batches and ends without an exception; every
  batch has \<open>batch_size\<close> examples in the buffer and \<open>batch_size\<close> pose
  differences, no partial batch is yielded, and \<open>N = batch_size + seq_len - 1\<close> gives
  exactly one batch.
\<close>

theorem batches_count:
  assumes init: "DataManager_init ps imgs bs sl s0 = Inr (dm, s1)"
    and run: "batches conv dm s1 = (ys, sf, r)"
    and sl2: "2 \<le> sl" and enough: "d0 imgs \<le> length ps"
  shows "length ys = d0 imgs div nat (bs + sl - 1) \<and> r = None
       \<and> (\<forall>j<length ys.
             d0 (arrays4 (snd (ys ! j)) ! fst (fst (ys ! j))) = nat bs
             \<and> length (arrays2 (snd (ys ! j)) ! snd (fst (ys ! j))) = nat bs)
       \<and> (d0 imgs = nat (bs + sl - 1) \<longrightarrow> length ys = 1)"
proof -
  note ok = init_facts(1) [OF init] and sl = init_facts(2) [OF init]
    and bs = init_facts(3) [OF init] and bs0 = init_facts(4) [OF init]
    and n = init_facts(6) [OF init] and l = init_facts(9) [OF init]
  let ?l = "nat (bs + sl - 1)"
  have pos: "0 < ?l" using sl2 bs0 by simp
  let ?idxs = "map (\<lambda>j. j * ?l) [0..<(d0 imgs + ?l - 1) div ?l]"
  from run pos have loop: "batches_loop conv dm ?idxs s1 = (ys, sf, r)"
    by (simp add: batches_def py_range_def l n)
  have diffs: "\<exists>d. pose_differences dm ps (map (\<lambda>i. i + b) (image_indices dm)) = Inr d"
    if "b + length (image_indices dm) \<le> N dm" for b
    using that enough pose_differences_pairs [OF ok, of b] sl2 by (simp add: sl n)
  from batches_loop_count [OF ok loop diffs]
  have r: "r = None" and len: "length ys = d0 imgs div ?l"
    unfolding l n complete_batches [OF pos] by simp_all
  have each: "d0 (arrays4 (snd (ys ! j)) ! fst (fst (ys ! j))) = nat bs
             \<and> length (arrays2 (snd (ys ! j)) ! snd (fst (ys ! j))) = nat bs"
    if "j < length ys" for j
  proof -
    from batches_yields [OF ok run] that
    have at: "batch_at conv dm ps imgs (j * ?l) (ys ! j)" by (simp add: l)
    then have "dm_ok dm (snd (ys ! j)) ps imgs"
      and "fst (fst (ys ! j)) = image_stack_batch dm" by (simp_all add: batch_at_def)
    then have rows: "d0 (arrays4 (snd (ys ! j)) ! fst (fst (ys ! j))) = nat bs"
      by (simp add: dm_ok_def bs)
    from at have "pose_differences dm ps (map (\<lambda>i. i + j * ?l) (image_indices dm))
        = Inr (arrays2 (snd (ys ! j)) ! snd (fst (ys ! j)))"
      by (simp add: batch_at_def)
    with pose_differences_pairs [OF ok, of "j * ?l"] sl2
    have "length (arrays2 (snd (ys ! j)) ! snd (fst (ys ! j))) = nat bs"
      by (auto simp: sl bs split: if_splits)
    with rows show ?thesis by simp
  qed
  from len pos have "d0 imgs = ?l \<longrightarrow> length ys = 1" by simp
  with r len each show ?thesis by blast
qed

theorem batches_count_witness:
  "example_init = Inr (fst (projr example_init), snd (projr example_init))
   \<and> (2::int) \<le> 2 \<and> d0 (example_frames 6) \<le> length (example_poses 6)
   \<and> length (fst example_run) = d0 (example_frames 6) div nat (2 + 2 - 1)
   \<and> snd (snd example_run) = None
   \<and> length (fst example_run) = 2"
proof -
  have h1: "example_init = Inr (fst (projr example_init), snd (projr example_init))"
    using example_init_Inr by (simp only: example_init_def)
  have h2: "(2::int) \<le> 2" by simp
  have h3: "d0 (example_frames 6) \<le> length (example_poses 6)"
    by (simp add: example_frames_def example_poses_def)
  note main = batches_count [OF example_init_Inr example_run_eq h2 h3]
  show ?thesis
    by (intro conjI h1 h2 h3 main [THEN conjunct1] main [THEN conjunct2, THEN conjunct1]
        example_run_length)
qed

text \<open>
  With \<open>seq_len = 1\<close> and \<open>batch_size = 2\<close>, two frames and two poses, the pass
  yields no batch and ends in \<^verbatim>\<open>ValueError\<close>, where \<open>2 div (2 + 1 - 1)\<close> is 1.
\<close>

theorem batches_count_counterexample:
  "fst (single_run 2 2) = [] \<and> snd (snd (single_run 2 2)) = Some ValueError
   \<and> (2::nat) div nat (2 + 1 - 1) = 1"
  by (simp add: single_run_def single_init_def eval_batches upt_rec)

text \<open>
  C7. Over a whole pass of \<^verbatim>\<open>batches\<close> the loaded image and pose arrays stay as they
  were loaded, at every yield and at the end. The buffer is the array the constructor
  allocated; the pass allocates no other array of rank 4, and the buffer keeps the
  shape \<open>(batch_size, H, W, C * seq_len)\<close>. Every pair yielded carries the reference
  to this one buffer, which is overwritten in place: read through the reference
  yielded at an earlier step \<open>i\<close>, the buffer at step \<open>j\<close> holds the frames of
  batch \<open>j\<close>.
\<close>

theorem batches_buffer_reuse:
  assumes init: "DataManager_init ps imgs bs sl s0 = Inr (dm, s1)"
    and run: "batches conv dm s1 = (ys, sf, r)"
  shows "image_stack_batch dm = Suc (length (arrays4 s0))
       \<and> length (arrays4 s1) = length (arrays4 s0) + 2
       \<and> length (arrays4 sf) = length (arrays4 s1)
       \<and> arrays4 sf ! images dm = imgs \<and> arrays2 sf ! poses dm = ps
       \<and> (\<forall>j<length ys.
             fst (fst (ys ! j)) = image_stack_batch dm
           \<and> length (arrays4 (snd (ys ! j))) = length (arrays4 s1)
           \<and> arrays4 (snd (ys ! j)) ! images dm = imgs
           \<and> arrays2 (snd (ys ! j)) ! poses dm = ps
           \<and> d0 (arrays4 (snd (ys ! j)) ! image_stack_batch dm) = nat bs
           \<and> d1 (arrays4 (snd (ys ! j)) ! image_stack_batch dm) = H dm
           \<and> d2 (arrays4 (snd (ys ! j)) ! image_stack_batch dm) = W dm
           \<and> d3 (arrays4 (snd (ys ! j)) ! image_stack_batch dm) = nat (int (C dm) * sl)
           \<and> (\<forall>i\<le>j. \<forall>e<nat bs. \<forall>idx<nat sl. \<forall>y<H dm. \<forall>x<W dm. \<forall>ch<C dm.
                 item (arrays4 (snd (ys ! j)) ! fst (fst (ys ! i))) e y x (C dm * idx + ch)
                   = conv (item imgs (j * nat (bs + sl - 1) + e + idx) y x ch)))"
proof -
  note ok = init_facts(1) [OF init] and sl = init_facts(2) [OF init]
    and bs = init_facts(3) [OF init] and c = init_facts(5) [OF init]
    and h = init_facts(7) [OF init] and w = init_facts(8) [OF init]
    and l = init_facts(9) [OF init]
  from batches_yields [OF ok run]
  have okf: "dm_ok dm sf ps imgs" and lf: "length (arrays4 sf) = length (arrays4 s1)"
    and ats: "\<And>j. j < length ys \<Longrightarrow> batch_at conv dm ps imgs (j * nat (bs + sl - 1)) (ys ! j)"
    and l4: "\<And>j. j < length ys \<Longrightarrow> length (arrays4 (snd (ys ! j))) = length (arrays4 s1)"
    by (simp_all add: l)
  have refs: "fst (fst (ys ! j)) = image_stack_batch dm" if "j < length ys" for j
    using ats [OF that] by (simp add: batch_at_def)
  have oks: "dm_ok dm (snd (ys ! j)) ps imgs" if "j < length ys" for j
    using ats [OF that] by (simp add: batch_at_def)
  have content: "item (arrays4 (snd (ys ! j)) ! fst (fst (ys ! i))) e y x (C dm * idx + ch)
                   = conv (item imgs (j * nat (bs + sl - 1) + e + idx) y x ch)"
    if "j < length ys" "i \<le> j" "e < nat bs" "idx < nat sl" "y < H dm" "x < W dm" "ch < C dm"
    for i j e idx y x ch
  proof -
    from that have "i < length ys" by simp
    from refs [OF this] ats [OF that(1)] that show ?thesis
      by (simp add: batch_at_def sl bs c h w add.assoc add.commute add.left_commute)
  qed
  have yield: "fst (fst (ys ! j)) = image_stack_batch dm
           \<and> length (arrays4 (snd (ys ! j))) = length (arrays4 s1)
           \<and> arrays4 (snd (ys ! j)) ! images dm = imgs
           \<and> arrays2 (snd (ys ! j)) ! poses dm = ps
           \<and> d0 (arrays4 (snd (ys ! j)) ! image_stack_batch dm) = nat bs
           \<and> d1 (arrays4 (snd (ys ! j)) ! image_stack_batch dm) = H dm
           \<and> d2 (arrays4 (snd (ys ! j)) ! image_stack_batch dm) = W dm
           \<and> d3 (arrays4 (snd (ys ! j)) ! image_stack_batch dm) = nat (int (C dm) * sl)"
    if "j < length ys" for j
    using refs [OF that] l4 [OF that] oks [OF that] by (simp add: dm_ok_def sl bs)
  from okf have "arrays4 sf ! images dm = imgs" "arrays2 sf ! poses dm = ps"
    by (simp_all add: dm_ok_def)
  with init_facts(10) [OF init] init_facts(13) [OF init] lf yield content
  show ?thesis by simp
qed


theorem batches_buffer_reuse_witness:
  "example_init = Inr (fst (projr example_init), snd (projr example_init))
   \<and> (1::nat) < length (fst example_run)
   \<and> fst (fst (fst example_run ! 0)) = image_stack_batch (fst (projr example_init))
   \<and> fst (fst (fst example_run ! 1)) = image_stack_batch (fst (projr example_init))
   \<and> arrays4 (snd (fst example_run ! 1)) ! images (fst (projr example_init)) = example_frames 6
   \<and> arrays2 (snd (fst example_run ! 1)) ! poses (fst (projr example_init)) = example_poses 6
   \<and> item (arrays4 (snd (fst example_run ! 1)) ! fst (fst (fst example_run ! 0))) 0 0 0
        (C (fst (projr example_init)) * 0 + 0)
       = item (example_frames 6) (1 * nat (2 + 2 - 1) + 0 + 0) 0 0 0"
proof -
  let ?dm = "fst (projr example_init)"
  have h1: "example_init = Inr (?dm, snd (projr example_init))"
    using example_init_Inr by (simp only: example_init_def)
  have h3: "(1::nat) < length (fst example_run)" by (simp add: example_run_length)
  have dims: "0 < H ?dm" "0 < W ?dm" "0 < C ?dm"
    by (simp_all add: example_init_def eval_batches)
  note main = batches_buffer_reuse [OF example_init_Inr example_run_eq]
  note yield = main [THEN conjunct2, THEN conjunct2, THEN conjunct2, THEN conjunct2,
      THEN conjunct2, rule_format]
  have h0: "(0::nat) < length (fst example_run)" by (simp add: example_run_length)
  from yield [OF h0] have a: "fst (fst (fst example_run ! 0)) = image_stack_batch ?dm"
    by (rule conjunct1)
  from yield [OF h3] have b: "fst (fst (fst example_run ! 1)) = image_stack_batch ?dm"
    and c: "arrays4 (snd (fst example_run ! 1)) ! images ?dm = example_frames 6"
    and d: "arrays2 (snd (fst example_run ! 1)) ! poses ?dm = example_poses 6"
    and all: "\<forall>i\<le>1. \<forall>e<nat 2. \<forall>idx<nat 2. \<forall>y<H ?dm. \<forall>x<W ?dm. \<forall>ch<C ?dm.
      item (arrays4 (snd (fst example_run ! 1)) ! fst (fst (fst example_run ! i))) e y x
        (C ?dm * idx + ch)
      = item (example_frames 6) (1 * nat (2 + 2 - 1) + e + idx) y x ch"
    by blast+
  from all [rule_format, of 0 0 0 0 0 0] dims have e: "item (arrays4 (snd (fst example_run ! 1)) ! fst (fst (fst example_run ! 0)))
        0 0 0 (C ?dm * 0 + 0)
      = item (example_frames 6) (1 * nat (2 + 2 - 1) + 0 + 0) 0 0 0"
    by simp
  show ?thesis by (intro conjI h1 h3 a b c d e)
qed

text \<open>
  C9, amended. A \<^verbatim>\<open>DataManager\<close> constructed with \<open>seq_len = 1\<close> and
  \<open>batch_size \<ge> 2\<close> over at least \<open>batch_size\<close> frames yields nothing: the first
  step of \<^verbatim>\<open>batches\<close> raises, \<^verbatim>\<open>ValueError\<close> from the subtraction of a pose
  array of \<open>batch_size\<close> rows and one of no row when the poses cover the batch,
  \<^verbatim>\<open>IndexError\<close> when they do not.
\<close>

theorem batches_single_frame_raises:
  assumes init: "DataManager_init ps imgs bs 1 s0 = Inr (dm, s1)"
    and bs2: "2 \<le> bs" and frames: "nat bs \<le> d0 imgs"
  shows "fst (batches conv dm s1) = []
       \<and> snd (snd (batches conv dm s1))
           = Some (if nat bs \<le> length ps then ValueError else IndexError)"
proof -
  note ok = init_facts(1) [OF init] and sl = init_facts(2) [OF init]
    and bs = init_facts(3) [OF init] and n = init_facts(6) [OF init]
    and l = init_facts(9) [OF init]
  let ?l = "nat bs"
  let ?e = "if nat bs \<le> length ps then ValueError else IndexError"
  have pos: "0 < ?l" using bs2 by simp
  have "0 < (d0 imgs + ?l - Suc 0) div ?l"
    using frames pos by (simp add: div_greater_zero_iff)
  then have idxs: "map (\<lambda>j. j * ?l) [0..<(d0 imgs + ?l - Suc 0) div ?l]
      = 0 # map (\<lambda>j. j * ?l) [Suc 0..<(d0 imgs + ?l - Suc 0) div ?l]"
    by (simp add: upt_conv_Cons)
  have fit: "0 + length (image_indices dm) \<le> N dm" using frames by (simp add: l n)
  have "pose_differences dm ps (map (\<lambda>i. i + 0) (image_indices dm)) = Inl ?e"
    using pose_differences_single [OF ok sl, of 0] bs2 by (simp add: bs)
  with batch_body_effect [OF ok fit, of conv]
  have body: "batch_body conv dm 0 s1 = (s1, Inl ?e)"
    by (cases "batch_body conv dm 0 s1") (auto simp: batch_at_def split: sum.splits)
  have "batches conv dm s1 = ([], s1, Some ?e)"
    using pos fit body by (simp add: batches_def py_range_def l n idxs)
  then show ?thesis by simp
qed

theorem batches_single_frame_raises_witness:
  "single_init 4 2 = Inr (fst (projr (single_init 4 2)), snd (projr (single_init 4 2)))
   \<and> (2::int) \<le> 2 \<and> nat 2 \<le> d0 (example_frames 4)
   \<and> fst (single_run 4 2) = []
   \<and> snd (snd (single_run 4 2)) = Some ValueError"
proof -
  have h0: "DataManager_init (example_poses 4) (example_frames 4) 2 1 empty_store
      = Inr (fst (projr (single_init 4 2)), snd (projr (single_init 4 2)))"
    by (simp add: single_init_def eval_batches)
  have h1: "single_init 4 2 = Inr (fst (projr (single_init 4 2)), snd (projr (single_init 4 2)))"
    using h0 by (simp only: single_init_def)
  have h2: "(2::int) \<le> 2" by simp
  have h3: "nat 2 \<le> d0 (example_frames 4)" by (simp add: example_frames_def)
  have p: "nat 2 \<le> length (example_poses 4)" by (simp add: example_poses_def)
  note main = batches_single_frame_raises [OF h0 h2 h3, of "\<lambda>v. v"]
  from main have a: "fst (single_run 4 2) = []" by (simp add: single_run_def)
  from main p have b: "snd (snd (single_run 4 2)) = Some ValueError"
    by (simp add: single_run_def)
  show ?thesis by (intro conjI h1 h2 h3 a b)
qed

text \<open>
  With \<open>seq_len = 1\<close> and \<open>batch_size = 1\<close> nothing is raised: over three frames the
  pass yields three batches of one single-frame example and ends normally.
\<close>

theorem batches_single_frame_counterexample:
  "length (fst (single_run 3 1)) = 3 \<and> snd (snd (single_run 3 1)) = None
   \<and> item (arrays4 (snd (fst (single_run 3 1) ! 2)) ! fst (fst (fst (single_run 3 1) ! 2)))
        0 0 0 1 = 21"
  by (simp add: single_run_def single_init_def eval_batches upt_rec)

text \<open>
  C6, amended. The constructor does not compare the number of frames with the number
  of poses: whether it raises does not depend on the loaded poses. It raises
  \<^verbatim>\<open>ValueError\<close> when \<open>batch_size\<close> or \<open>C * seq_len\<close> is negative; otherwise it
  succeeds for any loaded poses, keeps the two loaded arrays and allocates exactly one
  new array, the zero-filled buffer of shape \<open>(batch_size, H, W, C * seq_len)\<close>.
\<close>

theorem DataManager_init_no_count_check:
  "(bs < 0 \<or> int (d3 imgs) * sl < 0 \<longrightarrow>
      DataManager_init ps imgs bs sl s0 = Inl ValueError)
   \<and> (0 \<le> bs \<and> 0 \<le> int (d3 imgs) * sl \<longrightarrow>
        (\<exists>dm s1. DataManager_init ps imgs bs sl s0 = Inr (dm, s1)
           \<and> arrays2 s1 = arrays2 s0 @ [ps]
           \<and> arrays4 s1 = arrays4 s0
               @ [imgs, zeros (nat bs) (d1 imgs) (d2 imgs) (nat (int (d3 imgs) * sl))]
           \<and> poses dm = length (arrays2 s0) \<and> images dm = length (arrays4 s0)
           \<and> image_stack_batch dm = Suc (length (arrays4 s0))
           \<and> arrays2 s1 ! poses dm = ps \<and> arrays4 s1 ! images dm = imgs
           \<and> arrays4 s1 ! image_stack_batch dm
               = zeros (nat bs) (d1 imgs) (d2 imgs) (nat (int (d3 imgs) * sl))
           \<and> N dm = d0 imgs \<and> seq_len dm = sl \<and> batch_size dm = bs))
   \<and> (\<forall>ps'. isl (DataManager_init ps' imgs bs sl s0)
              = isl (DataManager_init ps imgs bs sl s0))"
  by (auto simp: DataManager_init_def alloc2_def alloc4_def Let_def nth_append
      split: if_splits)

theorem DataManager_init_no_count_check_witness:
  "((- 1 :: int) < 0 \<or> int (d3 (example_frames 6)) * 2 < 0)
   \<and> DataManager_init (example_poses 6) (example_frames 6) (- 1) 2 empty_store = Inl ValueError
   \<and> length (example_poses 5) \<noteq> d0 (example_frames 6)
   \<and> (0 :: int) \<le> 2 \<and> 0 \<le> int (d3 (example_frames 6)) * 2
   \<and> \<not> isl (DataManager_init (example_poses 5) (example_frames 6) 2 2 empty_store)
   \<and> arrays2 (snd (projr (DataManager_init (example_poses 5) (example_frames 6) 2 2 empty_store)))
       = arrays2 empty_store @ [example_poses 5]
   \<and> length (arrays4 (snd (projr
         (DataManager_init (example_poses 5) (example_frames 6) 2 2 empty_store))))
       = length (arrays4 empty_store) + 2"
proof -
  let ?i = "DataManager_init (example_poses 5) (example_frames 6) 2 2 empty_store"
  have neg: "(- 1 :: int) < 0 \<or> int (d3 (example_frames 6)) * 2 < 0" by simp
  note fail = DataManager_init_no_count_check
    [of "- 1" "example_frames 6" 2 "example_poses 6" empty_store,
      THEN conjunct1, rule_format, OF neg]
  have a: "length (example_poses 5) \<noteq> d0 (example_frames 6)"
    by (simp add: example_poses_def example_frames_def)
  have nn: "(0 :: int) \<le> 2" "0 \<le> int (d3 (example_frames 6)) * 2"
    by (simp_all add: example_frames_def)
  from nn have both: "(0 :: int) \<le> 2 \<and> 0 \<le> int (d3 (example_frames 6)) * 2" by simp
  from DataManager_init_no_count_check
    [of 2 "example_frames 6" 2 "example_poses 5" empty_store,
      THEN conjunct2, THEN conjunct1, rule_format, OF both]
  obtain dm s1 where ok: "?i = Inr (dm, s1)"
    and p: "arrays2 s1 = arrays2 empty_store @ [example_poses 5]"
    and f: "arrays4 s1 = arrays4 empty_store @ [example_frames 6,
        zeros (nat 2) (d1 (example_frames 6)) (d2 (example_frames 6))
          (nat (int (d3 (example_frames 6)) * 2))]"
    by blast
  from ok have b: "\<not> isl ?i" by simp
  from ok p have c: "arrays2 (snd (projr ?i)) = arrays2 empty_store @ [example_poses 5]"
    by simp
  from ok f have d: "length (arrays4 (snd (projr ?i))) = length (arrays4 empty_store) + 2"
    by simp
  show ?thesis by (intro conjI neg fail a nn b c d)
qed

text \<open>
  Three frames and two poses: the counts differ and the construction succeeds.
\<close>

theorem DataManager_init_counterexample:
  "length (example_poses 2) \<noteq> d0 (example_frames 3)
   \<and> \<not> isl (DataManager_init (example_poses 2) (example_frames 3) 1 2 empty_store)"
  by (simp add: eval_batches)

section \<open>Properties of \<^verbatim>\<open>convert_large_array\<close>\<close>




end
